theory Spec2Isabelle
  imports Complex_Main "HOL-Library.Sublist"
begin

section \<open>The run-time values the services compute with\<close>

subsection \<open>Numbers\<close>

text \<open>
  A JavaScript number is an IEEE 754 binary64 value. The model keeps the three special
  values apart and represents a finite value by the rational it denotes. Every
  arithmetic operation rounds its exact result to the nearest binary64 value, ties to
  even (\<open>rnd\<close>), and overflows to an infinity when the rounded value reaches
  \<open>2 ^ 1024\<close>. The one identification made is that
  of negative zero with zero (the two are equal under \<open>===\<close>).
\<close>

datatype jsnum = NaN | PInf | NInf | Fin rat

definition pw :: "int \<Rightarrow> int \<Rightarrow> rat" where
  \<comment> \<open>\<open>b\<close> to the power \<open>e\<close>, for \<open>e\<close> of either sign\<close>
  "pw b e = (if 0 \<le> e then of_int (b ^ nat e) else 1 / of_int (b ^ nat (- e)))"

function ndigits :: "int \<Rightarrow> int \<Rightarrow> int" where
  \<comment> \<open>the number of digits of \<open>n\<close> in base \<open>b\<close>\<close>
  "ndigits b n = (if n \<le> 0 \<or> b \<le> 1 then 0 else ndigits b (n div b) + 1)"
  by pat_completeness auto
termination
  by (relation "measure (\<lambda>(b, n). nat n)") (auto intro: int_div_less_self)

definition ilog :: "int \<Rightarrow> rat \<Rightarrow> int" where
  \<comment> \<open>for \<open>0 < a\<close> and \<open>1 < b\<close>: the \<open>e\<close> with \<open>b ^ e \<le> a < b ^ (e + 1)\<close>\<close>
  "ilog b a =
     (if 1 \<le> a then ndigits b \<lfloor>a\<rfloor> - 1 else - ndigits b (\<lceil>1 / a\<rceil> - 1))"

definition round_even :: "rat \<Rightarrow> int" where
  "round_even x =
     (let f = \<lfloor>x\<rfloor>; d = x - of_int f
      in if d < 1 / 2 then f else if 1 / 2 < d then f + 1
         else if even f then f else f + 1)"

definition rnd :: "rat \<Rightarrow> jsnum" where
  "rnd q =
     (if q = 0 then Fin 0
      else let a = \<bar>q\<bar>;
               e = max (ilog 2 a) (- 1022);
               ulp = pw 2 (e - 52);
               r = of_int (round_even (a / ulp)) * ulp
           in if 1024 \<le> ilog 2 r then (if q < 0 then NInf else PInf)
              else Fin (if q < 0 then - r else r))"

fun js_add :: "jsnum \<Rightarrow> jsnum \<Rightarrow> jsnum" where
  "js_add NaN _ = NaN"
| "js_add _ NaN = NaN"
| "js_add PInf NInf = NaN"
| "js_add NInf PInf = NaN"
| "js_add PInf _ = PInf"
| "js_add _ PInf = PInf"
| "js_add NInf _ = NInf"
| "js_add _ NInf = NInf"
| "js_add (Fin a) (Fin b) = rnd (a + b)"

fun js_mul :: "jsnum \<Rightarrow> jsnum \<Rightarrow> jsnum" where
  "js_mul NaN _ = NaN"
| "js_mul _ NaN = NaN"
| "js_mul (Fin a) (Fin b) = rnd (a * b)"
| "js_mul (Fin a) PInf = (if a = 0 then NaN else if a < 0 then NInf else PInf)"
| "js_mul (Fin a) NInf = (if a = 0 then NaN else if a < 0 then PInf else NInf)"
| "js_mul PInf (Fin b) = (if b = 0 then NaN else if b < 0 then NInf else PInf)"
| "js_mul NInf (Fin b) = (if b = 0 then NaN else if b < 0 then PInf else NInf)"
| "js_mul PInf PInf = PInf"
| "js_mul NInf NInf = PInf"
| "js_mul PInf NInf = NInf"
| "js_mul NInf PInf = NInf"

fun js_div :: "jsnum \<Rightarrow> jsnum \<Rightarrow> jsnum" where
  "js_div NaN _ = NaN"
| "js_div _ NaN = NaN"
| "js_div (Fin a) (Fin b) =
     (if b = 0 then (if a = 0 then NaN else if a < 0 then NInf else PInf)
      else rnd (a / b))"
| "js_div (Fin a) PInf = Fin 0"
| "js_div (Fin a) NInf = Fin 0"
| "js_div PInf (Fin b) = (if b < 0 then NInf else PInf)"
| "js_div NInf (Fin b) = (if b < 0 then PInf else NInf)"
| "js_div PInf PInf = NaN"
| "js_div PInf NInf = NaN"
| "js_div NInf PInf = NaN"
| "js_div NInf NInf = NaN"

fun js_lt :: "jsnum \<Rightarrow> jsnum \<Rightarrow> bool" where
  "js_lt (Fin a) (Fin b) = (a < b)"
| "js_lt (Fin a) PInf = True"
| "js_lt NInf (Fin b) = True"
| "js_lt NInf PInf = True"
| "js_lt _ _ = False"

definition js_gt :: "jsnum \<Rightarrow> jsnum \<Rightarrow> bool" where
  "js_gt a b = js_lt b a"

definition js_le :: "jsnum \<Rightarrow> jsnum \<Rightarrow> bool" where
  "js_le a b = (a \<noteq> NaN \<and> b \<noteq> NaN \<and> (js_lt a b \<or> a = b))"

definition js_ge :: "jsnum \<Rightarrow> jsnum \<Rightarrow> bool" where
  "js_ge a b = js_le b a"

definition math_min :: "jsnum \<Rightarrow> jsnum \<Rightarrow> jsnum" where
  \<comment> \<open>\<open>Math.min\<close> of two arguments\<close>
  "math_min a b = (if a = NaN \<or> b = NaN then NaN else if js_lt b a then b else a)"

definition isNaN :: "jsnum \<Rightarrow> bool" where
  "isNaN a = (a = NaN)"

definition isFinite :: "jsnum \<Rightarrow> bool" where
  "isFinite a = (case a of Fin _ \<Rightarrow> True | _ \<Rightarrow> False)"

subsection \<open>Strings\<close>

text \<open>
  Strings are lists of characters. \<open>trim\<close> and \<open>parseFloat\<close> strip the white space
  and line terminators of the language that exist among 8-bit characters: tab, line
  feed, vertical tab, form feed, carriage return, space and the no-break space.
\<close>

definition isWhiteSpace :: "char \<Rightarrow> bool" where
  "isWhiteSpace c = (c \<in> set [CHR 0x09, CHR 0x0A, CHR 0x0B, CHR 0x0C, CHR 0x0D, CHR 0x20, CHR 0xA0])"

definition trim :: "string \<Rightarrow> string" where
  "trim s = rev (dropWhile isWhiteSpace (rev (dropWhile isWhiteSpace s)))"

definition isDigit :: "char \<Rightarrow> bool" where
  "isDigit c = (c \<in> set ''0123456789'')"

definition digitVal :: "char \<Rightarrow> int" where
  "digitVal c = int (of_char c) - 48"

definition digitChar :: "int \<Rightarrow> char" where
  \<comment> \<open>the character of a digit from 0 to 9\<close>
  "digitChar d = ''0123456789'' ! nat d"

fun join :: "string \<Rightarrow> string list \<Rightarrow> string" where
  "join sep [] = []"
| "join sep [x] = x"
| "join sep (x # y # ys) = x @ sep @ join sep (y # ys)"

fun splitOn :: "char \<Rightarrow> string \<Rightarrow> string list" where
  \<comment> \<open>\<open>s.split(c)\<close> for a one-character separator\<close>
  "splitOn c [] = [[]]"
| "splitOn c (x # xs) =
     (if x = c then [] # splitOn c xs
      else (case splitOn c xs of [] \<Rightarrow> [[x]] | p # ps \<Rightarrow> (x # p) # ps))"

fun splitLines :: "string \<Rightarrow> string list" where
  \<comment> \<open>\<open>s.split(/\r?\n/)\<close>\<close>
  "splitLines [] = [[]]"
| "splitLines (x # xs) =
     (if x = CHR 0x0A then [] # splitLines xs
      else if x = CHR 0x0D \<and> (case xs of [] \<Rightarrow> False | y # _ \<Rightarrow> y = CHR 0x0A)
      then [] # splitLines (tl xs)
      else (case splitLines xs of [] \<Rightarrow> [[x]] | p # ps \<Rightarrow> (x # p) # ps))"

fun indexOf :: "'a list \<Rightarrow> 'a \<Rightarrow> int" where
  \<comment> \<open>\<open>Array.prototype.indexOf\<close>: the first position, or -1\<close>
  "indexOf [] a = - 1"
| "indexOf (x # xs) a =
     (if x = a then 0 else (let i = indexOf xs a in if i = - 1 then - 1 else i + 1))"

definition includesChar :: "string \<Rightarrow> char \<Rightarrow> bool" where
  "includesChar s c = (c \<in> set s)"

definition startsWith :: "string \<Rightarrow> string \<Rightarrow> bool" where
  "startsWith s p = prefix p s"

definition endsWith :: "string \<Rightarrow> string \<Rightarrow> bool" where
  "endsWith s p = suffix p s"

definition slice_1_m1 :: "string \<Rightarrow> string" where
  \<comment> \<open>\<open>s.slice(1, -1)\<close>\<close>
  "slice_1_m1 s = take (length s - 1 - 1) (drop 1 s)"

fun doubleQuotes :: "string \<Rightarrow> string" where
  \<comment> \<open>\<open>s.replace(/"/g, '""')\<close>\<close>
  "doubleQuotes [] = []"
| "doubleQuotes (c # cs) =
     (if c = CHR 0x22 then CHR 0x22 # CHR 0x22 # doubleQuotes cs else c # doubleQuotes cs)"

fun undoubleQuotes :: "string \<Rightarrow> string" where
  \<comment> \<open>\<open>s.replace(/""/g, '"')\<close>: pairs are matched from the left, without overlap\<close>
  "undoubleQuotes (c # d # cs) =
     (if c = CHR 0x22 \<and> d = CHR 0x22 then CHR 0x22 # undoubleQuotes cs
      else c # undoubleQuotes (d # cs))"
| "undoubleQuotes cs = cs"

function showNat :: "int \<Rightarrow> string" where
  \<comment> \<open>the decimal digits of a non-negative integer\<close>
  "showNat n = (if n < 10 then [digitChar (max n 0)] else showNat (n div 10) @ [digitChar (n mod 10)])"
  by pat_completeness auto
termination
  by (relation "measure nat") (auto intro: int_div_less_self)

fun readNat :: "int \<Rightarrow> string \<Rightarrow> int" where
  \<comment> \<open>the value of a string of decimal digits, after the digits already read\<close>
  "readNat acc [] = acc"
| "readNat acc (c # cs) = readNat (10 * acc + digitVal c) cs"

subsection \<open>Numbers and text\<close>

text \<open>
  \<open>Number::toString\<close> prints a finite non-zero \<open>x\<close> from the integers \<open>n\<close>, \<open>k\<close> and
  \<open>s\<close> with \<open>k\<close> as small as possible such that \<open>s\<close> has \<open>k\<close> digits and
  \<open>s * 10 ^ (n - k)\<close> rounds to \<open>x\<close>. \<open>shortest\<close> looks for them with \<open>k\<close> from 1 to
  17, and for each \<open>k\<close> tries the two \<open>k\<close>-digit decimals around \<open>x\<close>; 17 digits
  identify every binary64 value.
\<close>

definition closer :: "rat \<Rightarrow> int \<times> int \<Rightarrow> int \<times> int \<Rightarrow> int \<times> int" where
  "closer a lo hi =
     (let dl = a - of_int (fst lo) * pw 10 (snd lo);
          dh = of_int (fst hi) * pw 10 (snd hi) - a
      in if dl < dh then lo else if dh < dl then hi else if even (fst lo) then lo else hi)"

fun shortest :: "rat \<Rightarrow> int \<Rightarrow> nat list \<Rightarrow> int \<times> int" where
  "shortest a n0 [] = (round_even (a / pw 10 (n0 - 17)), n0 - 17)"
| "shortest a n0 (k # ks) =
     (let e = n0 - int k;
          lo = (\<lfloor>a / pw 10 e\<rfloor>, e);
          hi = (fst lo + 1, e);
          okl = (rnd (of_int (fst lo) * pw 10 e) = Fin a);
          okh = (rnd (of_int (fst hi) * pw 10 e) = Fin a)
      in if okl \<and> okh then closer a lo hi
         else if okl then lo else if okh then hi else shortest a n0 ks)"

function stripZeros :: "int \<times> int \<Rightarrow> int \<times> int" where
  "stripZeros (s, e) = (if 0 < s \<and> s mod 10 = 0 then stripZeros (s div 10, e + 1) else (s, e))"
  by pat_completeness auto
termination
  by (relation "measure (\<lambda>(s, e). nat s)") (auto intro: int_div_less_self)

definition showExp :: "int \<Rightarrow> string" where
  "showExp ex = (if ex < 0 then CHR ''-'' # showNat (- ex) else CHR ''+'' # showNat ex)"

definition showPos :: "rat \<Rightarrow> string" where
  \<comment> \<open>a finite number above zero\<close>
  "showPos a =
     (let (s, e) = stripZeros (shortest a (ilog 10 a + 1) [1..<18]);
          ds = showNat s;
          k = int (length ds);
          n = k + e
      in if k \<le> n \<and> n \<le> 21 then ds @ replicate (nat (n - k)) CHR ''0''
         else if 0 < n \<and> n \<le> 21 then take (nat n) ds @ ''.'' @ drop (nat n) ds
         else if - 6 < n \<and> n \<le> 0 then ''0.'' @ replicate (nat (- n)) CHR ''0'' @ ds
         else if k = 1 then ds @ ''e'' @ showExp (n - 1)
         else take 1 ds @ ''.'' @ drop 1 ds @ ''e'' @ showExp (n - 1))"

fun numToString :: "jsnum \<Rightarrow> string" where
  \<comment> \<open>what a template literal makes of a number\<close>
  "numToString NaN = ''NaN''"
| "numToString PInf = ''Infinity''"
| "numToString NInf = ''-Infinity''"
| "numToString (Fin q) =
     (if q = 0 then ''0'' else if q < 0 then CHR ''-'' # showPos (- q) else showPos q)"

text \<open>
  \<open>parseFloat\<close> skips leading white space and reads the longest prefix that is a
  decimal literal: an optional sign, then \<open>Infinity\<close>, or digits with an optional
  fraction and an optional exponent. Without such a prefix the result is \<open>NaN\<close>.
\<close>

definition parseExponent :: "string \<Rightarrow> int" where
  \<comment> \<open>the exponent part at the head of the rest, 0 when there is none\<close>
  "parseExponent r =
     (case r of
        [] \<Rightarrow> 0
      | c # t \<Rightarrow>
          if c = CHR ''e'' \<or> c = CHR ''E'' then
            (let neg = (case t of [] \<Rightarrow> False | d # _ \<Rightarrow> d = CHR ''-'');
                 t' = (case t of [] \<Rightarrow> [] | d # u \<Rightarrow> if d = CHR ''-'' \<or> d = CHR ''+'' then u else t);
                 ds = takeWhile isDigit t'
             in if ds = [] then 0 else if neg then - readNat 0 ds else readNat 0 ds)
          else 0)"

definition parseFloat :: "string \<Rightarrow> jsnum" where
  "parseFloat str =
     (let s1 = dropWhile isWhiteSpace str;
          neg = (case s1 of [] \<Rightarrow> False | c # _ \<Rightarrow> c = CHR ''-'');
          s2 = (case s1 of [] \<Rightarrow> [] | c # t \<Rightarrow> if c = CHR ''-'' \<or> c = CHR ''+'' then t else s1)
      in if prefix ''Infinity'' s2 then (if neg then NInf else PInf)
         else
           (let ip = takeWhile isDigit s2;
                r1 = dropWhile isDigit s2;
                fp = (case r1 of [] \<Rightarrow> [] | c # t \<Rightarrow> if c = CHR ''.'' then takeWhile isDigit t else []);
                r2 = (case r1 of [] \<Rightarrow> [] | c # t \<Rightarrow> if c = CHR ''.'' then dropWhile isDigit t else r1)
            in if ip = [] \<and> fp = [] then NaN
               else
                 (let m = of_int (readNat 0 (ip @ fp)) * pw 10 (parseExponent r2 - int (length fp))
                  in rnd (if neg then - m else m))))"

section \<open>types.ts\<close>

record Expense =
  id_e :: string
  amount :: jsnum
  date :: string
  category :: string
  description :: string
  tags :: "string list"

section \<open>services/logic.ts\<close>

record DailyStats =
  todaySpend :: jsnum
  isOverLimit :: bool
  isNearLimit :: bool
  limitPercentage :: jsnum

definition calculateDailyStats :: "Expense list \<Rightarrow> string \<Rightarrow> jsnum \<Rightarrow> DailyStats" where
  "calculateDailyStats expenses dateStr dailyLimit =
     (let spend =
            foldl (\<lambda>sum e. js_add sum (amount e)) (Fin 0)
              (filter (\<lambda>e. date e = dateStr) expenses);
          pct =
            (if js_gt dailyLimit (Fin 0)
             then js_mul (js_div spend dailyLimit) (Fin 100) else Fin 0)
      in \<lparr> todaySpend = spend,
           isOverLimit = js_gt spend dailyLimit,
           isNearLimit = (js_le spend dailyLimit \<and> js_ge pct (Fin 80)),
           limitPercentage = math_min pct (Fin 100) \<rparr>)"


text \<open>
  A \<open>Map\<close> keeps its entries in insertion order; \<open>set\<close> on a key that is present
  replaces the value where it stands, and on a new key appends the entry.
\<close>

type_synonym ('k, 'v) jsmap = "('k \<times> 'v) list"

fun map_has :: "('k, 'v) jsmap \<Rightarrow> 'k \<Rightarrow> bool" where
  "map_has [] k = False"
| "map_has ((k', v) # m) k = (k' = k \<or> map_has m k)"

fun map_set :: "('k, 'v) jsmap \<Rightarrow> 'k \<Rightarrow> 'v \<Rightarrow> ('k, 'v) jsmap" where
  "map_set [] k v = [(k, v)]"
| "map_set ((k', v') # m) k v = (if k' = k then (k, v) # m else (k', v') # map_set m k v)"

definition map_values :: "('k, 'v) jsmap \<Rightarrow> 'v list" where
  "map_values m = map snd m"

record MergeStats =
  added :: nat
  updated :: nat
  skipped :: nat

record MergeResult =
  merged :: "Expense list"
  stats :: MergeStats

text \<open>The state of the second \<open>forEach\<close> of \<open>mergeExpenses\<close>: the map and the two counters.\<close>

fun mergeStep ::
  "(string, Expense) jsmap \<times> nat \<times> nat \<Rightarrow> Expense \<Rightarrow> (string, Expense) jsmap \<times> nat \<times> nat" where
  "mergeStep (m, a, u) inc =
     (if map_has m (id_e inc) then (map_set m (id_e inc) inc, a, u + 1)
      else (map_set m (id_e inc) inc, a + 1, u))"

definition mergeExpenses :: "Expense list \<Rightarrow> Expense list \<Rightarrow> MergeResult" where
  "mergeExpenses current incoming =
     (let m0 = foldl (\<lambda>m e. map_set m (id_e e) e) [] current;
          (m, a, u) = foldl mergeStep (m0, 0, 0) incoming
      in \<lparr> merged = map_values m,
           stats = \<lparr> added = a, updated = u, skipped = 0 \<rparr> \<rparr>)"

section \<open>services/csv.ts\<close>

definition requiredCols :: "string list" where
  "requiredCols = [''id'', ''date'', ''amount'', ''category'', ''description'', ''tags'']"

definition escapeDescription :: "string \<Rightarrow> string" where
  "escapeDescription d =
     (if includesChar d CHR '','' \<or> includesChar d CHR 0x22
      then [CHR 0x22] @ doubleQuotes d @ [CHR 0x22] else d)"

definition expenseRow :: "Expense \<Rightarrow> string" where
  "expenseRow e =
     id_e e @ '','' @ date e @ '','' @ numToString (amount e) @ '','' @ category e @ '','' @
     escapeDescription (description e) @ '','' @ join '';'' (tags e)"

definition generateCSVString :: "Expense list \<Rightarrow> string" where
  "generateCSVString expenses =
     join [CHR 0x0A] (join '','' requiredCols # map expenseRow expenses)"

record ImportResult =
  expenses :: "Expense list"
  errors :: "string list"

text \<open>
  The scanner of one line: \<open>parts\<close>, \<open>current\<close> and \<open>inQuotes\<close> are its three
  variables, and the last equation is the \<open>push\<close> after the loop.
\<close>

fun scanLine :: "string \<Rightarrow> string list \<Rightarrow> string \<Rightarrow> bool \<Rightarrow> string list" where
  "scanLine (c # cs) parts current inQuotes =
     (if c = CHR 0x22 then scanLine cs parts current (\<not> inQuotes)
      else if c = CHR '','' \<and> \<not> inQuotes then scanLine cs (parts @ [current]) [] inQuotes
      else scanLine cs parts (current @ [c]) inQuotes)"
| "scanLine [] parts current inQuotes = parts @ [current]"

definition isDateFormat :: "string \<Rightarrow> bool" where
  \<comment> \<open>\<open>/^\d{4}-\d{2}-\d{2}$/\<close>\<close>
  "isDateFormat s =
     (case s of
        [y1, y2, y3, y4, d1, m1, m2, d2, t1, t2] \<Rightarrow>
          isDigit y1 \<and> isDigit y2 \<and> isDigit y3 \<and> isDigit y4 \<and> d1 = CHR ''-'' \<and>
          isDigit m1 \<and> isDigit m2 \<and> d2 = CHR ''-'' \<and> isDigit t1 \<and> isDigit t2
      | _ \<Rightarrow> False)"

definition idx :: "string list \<Rightarrow> string \<Rightarrow> int" where
  \<comment> \<open>the record \<open>idx\<close>: the position of a column name in the header\<close>
  "idx headers col = indexOf headers col"

text \<open>
  The \<open>try\<close> block of a row, \<open>Inl\<close> the message of the \<open>Error\<close> it throws. The row has
  at least as many fields as the header and every \<open>idx\<close> is a position in the header,
  so every \<open>parts[idx.col]\<close> is in range.
\<close>

definition parseRow :: "string list \<Rightarrow> string list \<Rightarrow> string + Expense" where
  "parseRow headers parts =
     (let ident = trim (parts ! nat (idx headers ''id''));
          dat = trim (parts ! nat (idx headers ''date''));
          amountStr = trim (parts ! nat (idx headers ''amount''));
          cat = trim (parts ! nat (idx headers ''category''));
          desc = (if parts ! nat (idx headers ''description'') \<noteq> []
                  then trim (parts ! nat (idx headers ''description'')) else []);
          tagsStr = (if parts ! nat (idx headers ''tags'') \<noteq> []
                     then trim (parts ! nat (idx headers ''tags'')) else [])
      in if ident = [] then Inl ''Missing ID''
         else if \<not> isDateFormat dat then Inl ''Invalid Date format (YYYY-MM-DD required)''
         else
           (let amt = parseFloat amountStr
            in if isNaN amt then Inl ''Invalid Amount''
               else
                 Inr \<lparr> id_e = ident,
                       amount = amt,
                       date = dat,
                       category = (if cat \<noteq> [] then cat else ''Uncategorized''),
                       description =
                         (if startsWith desc [CHR 0x22] \<and> endsWith desc [CHR 0x22]
                          then undoubleQuotes (slice_1_m1 desc) else desc),
                       tags =
                         (if tagsStr \<noteq> []
                          then filter (\<lambda>t. t \<noteq> []) (map trim (splitOn CHR '';'' tagsStr))
                          else []) \<rparr>))"

definition lineError :: "nat \<Rightarrow> string \<Rightarrow> string" where
  \<comment> \<open>the message of a problem in \<open>lines[i]\<close>\<close>
  "lineError i msg = ''Line '' @ showNat (int i + 1) @ '': '' @ msg"

text \<open>The body of the loop over the lines, on the two arrays it pushes to.\<close>

definition processLine ::
  "string list \<Rightarrow> nat \<Rightarrow> string \<Rightarrow> Expense list \<times> string list \<Rightarrow> Expense list \<times> string list" where
  "processLine headers i raw acc =
     (let line = trim raw
      in if line = [] then acc
         else
           (let parts = scanLine line [] [] False
            in if length parts < length headers
               then (fst acc, snd acc @ [lineError i ''Insufficient columns''])
               else
                 (case parseRow headers parts of
                    Inr e \<Rightarrow> (fst acc @ [e], snd acc)
                  | Inl msg \<Rightarrow> (fst acc, snd acc @ [lineError i msg]))))"

fun importLoop ::
  "string list \<Rightarrow> nat \<Rightarrow> string list \<Rightarrow> Expense list \<times> string list \<Rightarrow> Expense list \<times> string list" where
  \<comment> \<open>the loop from \<open>i\<close> on, over the lines from \<open>lines[i]\<close> on\<close>
  "importLoop headers i [] acc = acc"
| "importLoop headers i (l # ls) acc = importLoop headers (i + 1) ls (processLine headers i l acc)"

definition importExpenses :: "string \<Rightarrow> ImportResult" where
  "importExpenses csvText =
     (let lines = splitLines csvText
      in if length lines < 2
         then \<lparr> expenses = [], errors = [''File is empty or missing headers''] \<rparr>
         else
           (let headers = splitOn CHR '','' (trim (lines ! 0))
            in if list_ex (\<lambda>i. i = - 1) (map (idx headers) requiredCols)
               then \<lparr> expenses = [],
                      errors = [''Missing required columns: '' @ join '', '' requiredCols] \<rparr>
               else
                 (let r = importLoop headers 1 (drop 1 lines) ([], [])
                  in \<lparr> expenses = fst r, errors = snd r \<rparr>)))"

section \<open>Notions used in the properties\<close>

text \<open>The three expenses that the tests of the repository use.\<close>

definition sampleExpenses :: "Expense list" where
  "sampleExpenses =
     [\<lparr> id_e = ''1'', amount = Fin 50, date = ''2023-10-25'', category = ''Food'',
         description = ''Groceries'', tags = [''home''] \<rparr>,
      \<lparr> id_e = ''2'', amount = Fin 30, date = ''2023-10-25'', category = ''Transport'',
         description = ''Gas'', tags = [] \<rparr>,
      \<lparr> id_e = ''3'', amount = Fin 100, date = ''2023-10-24'', category = ''Housing'',
         description = ''Rent'', tags = [''bill''] \<rparr>]"

text \<open>
  The invariant of the map of \<open>mergeExpenses\<close>: no key twice, and every record stored
  under its own \<open>id\<close>. \<open>seed\<close> is the map after the first \<open>forEach\<close>.
\<close>

definition keyed :: "(string, Expense) jsmap \<Rightarrow> bool" where
  "keyed m = (distinct (map fst m) \<and> list_all (\<lambda>p. id_e (snd p) = fst p) m)"

definition seed :: "Expense list \<Rightarrow> (string, Expense) jsmap" where
  "seed current = foldl (\<lambda>m e. map_set m (id_e e) e) [] current"

text \<open>
  The two file-level problems; the outcome of one line, as the body of the loop decides
  it (no outcome for a blank line, a message for a row-level problem, a record
  otherwise); the header as \<open>importExpenses\<close> reads it; a field of a split row by its
  column name; and a string that neither begins nor ends with white space.
\<close>

definition fileProblem :: "string \<Rightarrow> bool" where
  "fileProblem e =
     (e = ''File is empty or missing headers'' \<or>
      e = ''Missing required columns: '' @ join '', '' requiredCols)"

definition rowOutcome :: "string list \<Rightarrow> string \<Rightarrow> (string + Expense) option" where
  "rowOutcome headers raw =
     (let line = trim raw
      in if line = [] then None
         else
           (let parts = scanLine line [] [] False
            in if length parts < length headers then Some (Inl ''Insufficient columns'')
               else Some (parseRow headers parts)))"

definition rowRecord :: "string list \<Rightarrow> string \<Rightarrow> Expense option" where
  "rowRecord headers raw =
     (case rowOutcome headers raw of Some (Inr e) \<Rightarrow> Some e | _ \<Rightarrow> None)"

definition rowProblem :: "string list \<Rightarrow> nat \<times> string \<Rightarrow> string option" where
  "rowProblem headers il =
     (case rowOutcome headers (snd il) of
        Some (Inl msg) \<Rightarrow> Some (lineError (fst il) msg)
      | _ \<Rightarrow> None)"

definition headerOf :: "string \<Rightarrow> string list" where
  "headerOf csvText = splitOn CHR '','' (trim (splitLines csvText ! 0))"

definition noOuterSpace :: "string \<Rightarrow> bool" where
  "noOuterSpace s = (s = [] \<or> (\<not> isWhiteSpace (hd s) \<and> \<not> isWhiteSpace (last s)))"

definition field :: "string list \<Rightarrow> string list \<Rightarrow> string \<Rightarrow> string" where
  "field headers parts col = parts ! nat (idx headers col)"

text \<open>Texts that the properties are tried on.\<close>

definition csvHeader :: string where
  "csvHeader = ''id,date,amount,category,description,tags''"

definition badHeaderText :: string where
  "badHeaderText = ''id,date,amount'' @ [CHR 0x0A] @ ''bad_line_data''"

definition shuffledText :: string where
  "shuffledText =
     ''tags,description,category,amount,date,id,extra'' @ [CHR 0x0A] @
     '' t1 ; ;t2 ,d,c,5,2023-01-01, 9 ,zz''"

definition mixedText :: string where
  "mixedText =
     csvHeader @ [CHR 0x0A] @ ''bad_line_data'' @ [CHR 0x0A] @
     ''99,2023-01-01,10.50,Test,Desc,tag1;tag2''"

definition oddAmountsText :: string where
  "oddAmountsText =
     csvHeader @ [CHR 0x0A] @ ''5,2023-01-01,Infinity,,,'' @ [CHR 0x0A] @
     ''6,2023-01-01,1x,,,'' @ [CHR 0x0A] @ ''7,2023-01-01,x,,,''"

definition quotedLine :: string where
  "quotedLine = ''1,2024-01-01,5,Food,'' @ [CHR 0x22] @ ''a'' @ [CHR 0x22, CHR 0x22] @ ''b'' @ [CHR 0x22] @ '',''"

definition quotedText :: string where
  "quotedText = csvHeader @ [CHR 0x0A] @ quotedLine"

text \<open>
  What the round trip through the text asks of a record: \<open>plain\<close> strings have no
  comma, double quote or line feed; \<open>numChars\<close> are the characters a printed number or
  a date is made of.
\<close>

definition plain :: "string \<Rightarrow> bool" where
  "plain s = (CHR '','' \<notin> set s \<and> CHR 0x22 \<notin> set s \<and> CHR 0x0A \<notin> set s)"

definition numChars :: "char set" where
  "numChars = set ''0123456789.e+-InfityNa''"

definition wellFormed :: "Expense \<Rightarrow> bool" where
  "wellFormed e =
     (id_e e \<noteq> [] \<and> noOuterSpace (id_e e) \<and> plain (id_e e) \<and>
      isDateFormat (date e) \<and>
      \<not> isNaN (amount e) \<and> parseFloat (numToString (amount e)) = amount e \<and>
      category e \<noteq> [] \<and> noOuterSpace (category e) \<and> plain (category e) \<and>
      noOuterSpace (description e) \<and> CHR 0x22 \<notin> set (description e) \<and>
      CHR 0x0A \<notin> set (description e) \<and>
      list_all (\<lambda>t. t \<noteq> [] \<and> noOuterSpace t \<and> plain t \<and> CHR '';'' \<notin> set t) (tags e))"

text \<open>Records that the round trip is tried on.\<close>

definition roundTripSample :: "Expense list" where
  "roundTripSample =
     [\<lparr> id_e = ''1'', amount = Fin 50, date = ''2023-10-25'', category = ''Food'',
         description = ''Groceries'', tags = [''home'', ''weekly''] \<rparr>,
      \<lparr> id_e = ''2'', amount = Fin 30, date = ''2023-10-25'', category = ''Transport'',
         description = ''Apples, Oranges'', tags = [] \<rparr>]"

definition noCategory :: Expense where
  "noCategory =
     \<lparr> id_e = ''1'', amount = Fin 5, date = ''2024-01-01'', category = [],
       description = ''Lunch'', tags = [] \<rparr>"

definition paddedDescription :: Expense where
  "paddedDescription =
     \<lparr> id_e = ''1'', amount = Fin 5, date = ''2024-01-01'', category = ''Food'',
       description = '' a,b'', tags = [] \<rparr>"

text \<open>
  The number that a string of decimal digits denotes, and a record whose description
  contains a double quote.
\<close>

definition decimalValue :: "string \<Rightarrow> nat" where
  "decimalValue s = foldl (\<lambda>a c. 10 * a + (of_char c - 48)) 0 s"

definition quotedDescription :: Expense where
  "quotedDescription =
     \<lparr> id_e = ''1'', amount = Fin 5, date = ''2024-01-01'', category = ''Food'',
       description = ''a'' @ [CHR 0x22] @ ''b'', tags = [] \<rparr>"

declare ndigits.simps [simp del] showNat.simps [simp del] stripZeros.simps [simp del]

section \<open>Daily statistics\<close>



lemma sample_spend:
  "foldl (\<lambda>sum e. js_add sum (amount e)) (Fin 0) (filter (\<lambda>e. date e = ''2023-10-25'') sampleExpenses) = Fin 80"
  by code_simp




text \<open>
  Claim C5. With a daily limit of 0 and a positive spend on the reference date the
  function reports \<open>isOverLimit\<close>, but the percentage it returns is 0, not 100: the
  guard \<open>dailyLimit > 0\<close> sends a zero limit to the branch that yields 0, and the cap
  \<open>Math.min(0, 100)\<close> leaves it there. The test of the repository for a zero limit
  expects 100.
\<close>

theorem zero_limit:
  "js_gt (todaySpend (calculateDailyStats es d (Fin 0))) (Fin 0) \<Longrightarrow>
   isOverLimit (calculateDailyStats es d (Fin 0)) \<and>
   limitPercentage (calculateDailyStats es d (Fin 0)) = Fin 0"
  by (simp add: calculateDailyStats_def Let_def js_gt_def math_min_def)

theorem zero_limit_sample:
  "todaySpend (calculateDailyStats sampleExpenses ''2023-10-25'' (Fin 0)) = Fin 80 \<and>
   isOverLimit (calculateDailyStats sampleExpenses ''2023-10-25'' (Fin 0)) \<and>
   limitPercentage (calculateDailyStats sampleExpenses ''2023-10-25'' (Fin 0)) = Fin 0"
  using zero_limit [of sampleExpenses "''2023-10-25''"]
  by (simp add: calculateDailyStats_def Let_def sample_spend js_gt_def)

section \<open>Reconciliation\<close>

lemma map_has_iff: "map_has m k \<longleftrightarrow> k \<in> fst ` set m"
  by (induction m) auto

lemma keys_map_set': "set (map fst (map_set m k v)) = insert k (set (map fst m))"
proof (induction m)
  case Nil
  then show ?case by simp
next
  case (Cons p m)
  obtain k' v' where p: "p = (k', v')" by (cases p)
  show ?case
  proof (cases "k' = k")
    case True
    then show ?thesis by (simp add: p)
  next
    case False
    then have "set (map fst (map_set (p # m) k v)) = insert k' (set (map fst (map_set m k v)))"
      by (simp add: p)
    also have "\<dots> = insert k' (insert k (set (map fst m)))"
      by (simp only: Cons.IH)
    finally show ?thesis by (simp add: p insert_commute)
  qed
qed

lemma keys_map_set: "fst ` set (map_set m k v) = insert k (fst ` set m)"
  using keys_map_set' [of m k v] by simp

lemma distinct_map_set: "distinct (map fst m) \<Longrightarrow> distinct (map fst (map_set m k v))"
proof (induction m)
  case Nil
  then show ?case by simp
next
  case (Cons p m)
  obtain k' v' where p: "p = (k', v')" by (cases p)
  from Cons have "k' \<notin> fst ` set m" and d: "distinct (map fst m)" by (auto simp: p)
  then have "k' \<noteq> k \<Longrightarrow> k' \<notin> fst ` set (map_set m k v)"
    by (simp add: keys_map_set)
  with Cons.IH [OF d] Cons.prems show ?case
    by (auto simp: p)
qed

lemma keyed_map_set: "keyed m \<Longrightarrow> keyed (map_set m (id_e x) x)"
  unfolding keyed_def
proof (intro conjI)
  assume a: "distinct (map fst m) \<and> list_all (\<lambda>p. id_e (snd p) = fst p) m"
  then show "distinct (map fst (map_set m (id_e x) x))"
    by (simp add: distinct_map_set)
  from a have "list_all (\<lambda>p. id_e (snd p) = fst p) m" by simp
  then show "list_all (\<lambda>p. id_e (snd p) = fst p) (map_set m (id_e x) x)"
    by (induction m) auto
qed

lemma values_map_set_new:
  "k \<notin> fst ` set m \<Longrightarrow> map_values (map_set m k v) = map_values m @ [v]"
  by (induction m) (auto simp: map_values_def)

lemma values_map_set_old:
  "keyed m \<Longrightarrow> id_e x \<in> fst ` set m \<Longrightarrow>
   map_values (map_set m (id_e x) x) = map (\<lambda>e. if id_e e = id_e x then x else e) (map_values m)"
proof (induction m)
  case Nil
  then show ?case by simp
next
  case (Cons p m)
  obtain k' v' where p: "p = (k', v')" by (cases p)
  from Cons.prems have kd: "keyed m" and idv: "id_e v' = k'" and nin: "k' \<notin> fst ` set m"
    and all: "list_all (\<lambda>p. id_e (snd p) = fst p) m"
    by (auto simp: keyed_def p)
  show ?case
  proof (cases "k' = id_e x")
    case True
    from all nin True have "map (\<lambda>e. if id_e e = id_e x then x else e) (map snd m) = map snd m"
      by (induction m) (auto simp: image_iff)
    with True idv show ?thesis by (simp add: p map_values_def)
  next
    case False
    with Cons.prems have "id_e x \<in> fst ` set m" by (auto simp: p)
    from Cons.IH [OF kd this] False idv show ?thesis
      by (simp add: p map_values_def)
  qed
qed

lemma fold_set_keyed: "keyed m \<Longrightarrow> keyed (foldl (\<lambda>m e. map_set m (id_e e) e) m es)"
  by (induction es arbitrary: m) (auto simp: keyed_map_set)

lemma fold_set_keys:
  "fst ` set (foldl (\<lambda>m e. map_set m (id_e e) e) m es) = fst ` set m \<union> id_e ` set es"
  by (induction es arbitrary: m) (auto simp: keys_map_set)

lemma fst_fold_mergeStep:
  "fst (foldl mergeStep (m, a, u) es) = foldl (\<lambda>m e. map_set m (id_e e) e) m es"
  by (induction es arbitrary: m a u) auto

lemma mergeExpenses_alt:
  "mergeExpenses c i =
     \<lparr> merged = map_values (fst (foldl mergeStep (seed c, 0, 0) i)),
       stats = \<lparr> added = fst (snd (foldl mergeStep (seed c, 0, 0) i)),
                 updated = snd (snd (foldl mergeStep (seed c, 0, 0) i)), skipped = 0 \<rparr> \<rparr>"
  by (simp add: mergeExpenses_def seed_def Let_def split: prod.splits)

lemma keyed_state: "keyed (fst (foldl mergeStep (seed c, 0, 0) i))"
proof -
  have "keyed []" by (simp add: keyed_def)
  then have "keyed (seed c)" unfolding seed_def by (rule fold_set_keyed)
  then have "keyed (foldl (\<lambda>m e. map_set m (id_e e) e) (seed c) i)" by (rule fold_set_keyed)
  then show ?thesis by (simp add: fst_fold_mergeStep)
qed

lemma keys_state: "fst ` set (fst (foldl mergeStep (seed c, 0, 0) i)) = id_e ` set (c @ i)"
  by (simp add: fst_fold_mergeStep seed_def fold_set_keys image_Un)

lemma merge_seed_same: "merged (mergeExpenses c []) = merged (mergeExpenses [] c)"
  by (simp add: mergeExpenses_alt seed_def fst_fold_mergeStep)

lemma merge_snoc:
  "mergeExpenses c (i @ [x]) =
     (if id_e x \<in> id_e ` set (c @ i)
      then \<lparr> merged = map (\<lambda>e. if id_e e = id_e x then x else e) (merged (mergeExpenses c i)),
             stats = \<lparr> added = added (stats (mergeExpenses c i)),
                       updated = updated (stats (mergeExpenses c i)) + 1, skipped = 0 \<rparr> \<rparr>
      else \<lparr> merged = merged (mergeExpenses c i) @ [x],
             stats = \<lparr> added = added (stats (mergeExpenses c i)) + 1,
                       updated = updated (stats (mergeExpenses c i)), skipped = 0 \<rparr> \<rparr>)"
proof -
  obtain m a u where st: "foldl mergeStep (seed c, 0, 0) i = (m, a, u)"
    by (cases "foldl mergeStep (seed c, 0, 0) i") auto
  have k: "keyed m" using keyed_state [of c i] by (simp add: st)
  have ks: "fst ` set m = id_e ` set (c @ i)" using keys_state [of c i] by (simp add: st)
  show ?thesis
  proof (cases "id_e x \<in> id_e ` set (c @ i)")
    case True
    then have "id_e x \<in> fst ` set m" by (simp add: ks)
    with k True show ?thesis
      by (simp add: mergeExpenses_alt st map_has_iff values_map_set_old del: set_append)
  next
    case False
    then have "id_e x \<notin> fst ` set m" by (simp add: ks)
    with False show ?thesis
      by (simp add: mergeExpenses_alt st map_has_iff values_map_set_new del: set_append)
  qed
qed

text \<open>
  Claim C6. \<open>mergeExpenses\<close> seeds its map from \<open>current\<close> (by the same overwriting
  \<open>set\<close> that merging \<open>current\<close> into nothing performs) and then takes the incoming
  records in order. Each one, \<open>x\<close> after the records \<open>i\<close>, either meets its \<open>id\<close>
  in the map, and then replaces the stored record where it stands and adds one to
  \<open>updated\<close>, or is appended and adds one to \<open>added\<close>. \<open>skipped\<close> is always 0.
  Merging a record of id 1 and amount 50 with an incoming record of id 1 and amount 500
  keeps the incoming one, with \<open>updated = 1\<close> and \<open>added = 0\<close>.
\<close>

theorem mergeExpenses_by_identity:
  "skipped (stats (mergeExpenses c i)) = 0 \<and>
   merged (mergeExpenses [] []) = [] \<and>
   merged (mergeExpenses c []) = merged (mergeExpenses [] c) \<and>
   added (stats (mergeExpenses c [])) = 0 \<and>
   updated (stats (mergeExpenses c [])) = 0 \<and>
   mergeExpenses c (i @ [x]) =
     (if id_e x \<in> id_e ` set (c @ i)
      then \<lparr> merged = map (\<lambda>e. if id_e e = id_e x then x else e) (merged (mergeExpenses c i)),
             stats = \<lparr> added = added (stats (mergeExpenses c i)),
                       updated = updated (stats (mergeExpenses c i)) + 1, skipped = 0 \<rparr> \<rparr>
      else \<lparr> merged = merged (mergeExpenses c i) @ [x],
             stats = \<lparr> added = added (stats (mergeExpenses c i)) + 1,
                       updated = updated (stats (mergeExpenses c i)), skipped = 0 \<rparr> \<rparr>) \<and>
   mergeExpenses [e\<lparr> id_e := ''1'', amount := Fin 50 \<rparr>] [e'\<lparr> id_e := ''1'', amount := Fin 500 \<rparr>] =
     \<lparr> merged = [e'\<lparr> id_e := ''1'', amount := Fin 500 \<rparr>],
       stats = \<lparr> added = 0, updated = 1, skipped = 0 \<rparr> \<rparr>"
proof (intro conjI)
  show "mergeExpenses c (i @ [x]) =
     (if id_e x \<in> id_e ` set (c @ i)
      then \<lparr> merged = map (\<lambda>e. if id_e e = id_e x then x else e) (merged (mergeExpenses c i)),
             stats = \<lparr> added = added (stats (mergeExpenses c i)),
                       updated = updated (stats (mergeExpenses c i)) + 1, skipped = 0 \<rparr> \<rparr>
      else \<lparr> merged = merged (mergeExpenses c i) @ [x],
             stats = \<lparr> added = added (stats (mergeExpenses c i)) + 1,
                       updated = updated (stats (mergeExpenses c i)), skipped = 0 \<rparr> \<rparr>)"
    by (rule merge_snoc)
  show "merged (mergeExpenses c []) = merged (mergeExpenses [] c)"
    by (rule merge_seed_same)
qed (simp_all add: mergeExpenses_alt seed_def map_values_def)


section \<open>Decoding\<close>

lemma indexOf_ge: "- 1 \<le> indexOf xs a"
  by (induction xs) (auto simp: Let_def)

lemma indexOf_absent: "indexOf xs a = - 1 \<longleftrightarrow> a \<notin> set xs"
proof (induction xs)
  case Nil
  then show ?case by simp
next
  case (Cons x xs)
  have "- 1 \<le> indexOf xs a" by (rule indexOf_ge)
  with Cons show ?case by (auto simp: Let_def)
qed

lemma indexOf_present:
  "a \<in> set xs \<Longrightarrow> 0 \<le> indexOf xs a \<and> nat (indexOf xs a) < length xs \<and> xs ! nat (indexOf xs a) = a"
proof (induction xs)
  case Nil
  then show ?case by simp
next
  case (Cons x xs)
  show ?case
  proof (cases "x = a")
    case True
    then show ?thesis by simp
  next
    case False
    with Cons.prems have "a \<in> set xs" by simp
    from Cons.IH [OF this] False show ?thesis
      by (auto simp: Let_def nat_add_distrib)
  qed
qed

lemma header_check_gen:
  "list_ex (\<lambda>i. i = - 1) (map (idx h) cs) \<longleftrightarrow> \<not> set cs \<subseteq> set h"
  by (induction cs) (auto simp: idx_def indexOf_absent)

lemma header_check:
  "list_ex (\<lambda>i. i = - 1) (map (idx h) requiredCols) \<longleftrightarrow> \<not> set requiredCols \<subseteq> set h"
  by (rule header_check_gen)

lemma splitLines_step:
  "x \<noteq> CHR 0x0A \<Longrightarrow> \<not> (x = CHR 0x0D \<and> (case xs of [] \<Rightarrow> False | y # _ \<Rightarrow> y = CHR 0x0A)) \<Longrightarrow>
   splitLines (x # xs) = (case splitLines xs of [] \<Rightarrow> [[x]] | p # ps \<Rightarrow> (x # p) # ps)"
  by (cases xs) auto

lemma splitLines_crlf: "splitLines (CHR 0x0D # CHR 0x0A # xs) = [] # splitLines xs"
  by simp

lemma splitLines_lf: "splitLines (CHR 0x0A # xs) = [] # splitLines xs"
  by simp

declare splitLines.simps (2) [simp del]

lemma splitLines_nonempty: "splitLines s \<noteq> []"
proof (cases s)
  case Nil
  then show ?thesis by simp
next
  case (Cons x xs)
  show ?thesis
  proof (cases "x = CHR 0x0A")
    case True
    then show ?thesis by (simp add: Cons splitLines_lf)
  next
    case nl: False
    show ?thesis
    proof (cases "x = CHR 0x0D \<and> (case xs of [] \<Rightarrow> False | y # _ \<Rightarrow> y = CHR 0x0A)")
      case True
      then obtain ys where "xs = CHR 0x0A # ys" and "x = CHR 0x0D"
        by (cases xs) auto
      then show ?thesis by (simp add: Cons splitLines_crlf)
    next
      case False
      show ?thesis
        unfolding Cons splitLines_step [OF nl False]
        by (cases "splitLines xs") simp_all
    qed
  qed
qed

lemma length_splitLines: "length (splitLines s) = Suc (count_list s (CHR 0x0A))"
proof (induction s rule: length_induct)
  case (1 s)
  show ?case
  proof (cases s)
    case Nil
    then show ?thesis by simp
  next
    case (Cons x xs)
    have ih: "length (splitLines xs) = Suc (count_list xs (CHR 0x0A))"
      using 1 by (simp add: Cons)
    show ?thesis
    proof (cases "x = CHR 0x0A")
      case True
      then show ?thesis by (simp add: Cons splitLines_lf ih)
    next
      case nl: False
      show ?thesis
      proof (cases "x = CHR 0x0D \<and> (case xs of [] \<Rightarrow> False | y # _ \<Rightarrow> y = CHR 0x0A)")
        case True
        then obtain ys where xs: "xs = CHR 0x0A # ys" and x: "x = CHR 0x0D"
          by (cases xs) auto
        have "length (splitLines ys) = Suc (count_list ys (CHR 0x0A))"
          using 1 by (simp add: Cons xs)
        then show ?thesis by (simp add: Cons xs x splitLines_crlf)
      next
        case False
        obtain p ps where sp: "splitLines xs = p # ps"
          using splitLines_nonempty [of xs] by (cases "splitLines xs") auto
        from ih nl show ?thesis
          unfolding Cons splitLines_step [OF nl False] by (simp add: sp)
      qed
    qed
  qed
qed

lemma few_lines: "length (splitLines s) < 2 \<longleftrightarrow> CHR 0x0A \<notin> set s"
  by (simp add: length_splitLines count_list_0_iff less_Suc_eq)

lemma processLine_outcome:
  "processLine h i raw acc =
     (case rowOutcome h raw of
        None \<Rightarrow> acc
      | Some (Inl msg) \<Rightarrow> (fst acc, snd acc @ [lineError i msg])
      | Some (Inr e) \<Rightarrow> (fst acc @ [e], snd acc))"
  by (simp add: processLine_def rowOutcome_def Let_def split: sum.splits)

lemma importLoop_closed:
  "importLoop h i ls acc =
     (fst acc @ List.map_filter (rowRecord h) ls,
      snd acc @ List.map_filter (rowProblem h) (zip [i..<i + length ls] ls))"
proof (induction ls arbitrary: i acc)
  case Nil
  then show ?case by (simp add: List.map_filter_simps)
next
  case (Cons l ls)
  have up: "[i..<Suc (i + length ls)] = i # [Suc i..<Suc (i + length ls)]"
    by (rule upt_conv_Cons) simp
  note IH = Cons.IH [of "Suc i" "processLine h i l acc"]
  show ?case
  proof (cases "rowOutcome h l")
    case None
    with IH show ?thesis
      by (simp add: up processLine_outcome rowRecord_def rowProblem_def List.map_filter_simps
          del: upt_Suc)
  next
    case (Some r)
    with IH show ?thesis
      by (cases r)
        (simp_all add: up processLine_outcome rowRecord_def rowProblem_def List.map_filter_simps
          del: upt_Suc)
  qed
qed

lemma lineError_prefix: "prefix ''Line '' (lineError i msg)"
  by (simp add: lineError_def)

lemma rowProblem_not_file: "rowProblem h il = Some e \<Longrightarrow> \<not> fileProblem e"
proof -
  assume "rowProblem h il = Some e"
  then obtain msg where "e = lineError (fst il) msg"
    by (auto simp: rowProblem_def split: option.splits sum.splits)
  then have "prefix ''Line '' e" by (simp add: lineError_prefix)
  then show ?thesis by (auto simp: fileProblem_def)
qed

lemma importExpenses_cases:
  "importExpenses t =
     (if length (splitLines t) < 2
      then \<lparr> expenses = [], errors = [''File is empty or missing headers''] \<rparr>
      else if \<not> set requiredCols \<subseteq> set (headerOf t)
      then \<lparr> expenses = [],
             errors = [''Missing required columns: '' @ join '', '' requiredCols] \<rparr>
      else \<lparr> expenses = List.map_filter (rowRecord (headerOf t)) (drop 1 (splitLines t)),
             errors = List.map_filter (rowProblem (headerOf t))
                        (zip [1..<length (splitLines t)] (drop 1 (splitLines t))) \<rparr>)"
proof -
  have "1 + (length (splitLines t) - 1) = length (splitLines t)"
    using splitLines_nonempty [of t] by (cases "splitLines t") auto
  then show ?thesis
    by (simp add: importExpenses_def Let_def header_check headerOf_def importLoop_closed
        del: One_nat_def)
qed

lemma map_filter_mem: "y \<in> set (List.map_filter f xs) \<Longrightarrow> \<exists>x \<in> set xs. f x = Some y"
  by (induction xs) (auto simp: List.map_filter_simps split: option.splits)

lemma scanLine_no_quote:
  "\<forall>p \<in> set parts. CHR 0x22 \<notin> set p \<Longrightarrow> CHR 0x22 \<notin> set cur \<Longrightarrow>
   \<forall>p \<in> set (scanLine cs parts cur q). CHR 0x22 \<notin> set p"
  by (induction cs parts cur q rule: scanLine.induct) auto

lemma scanLine_length: "length parts < length (scanLine cs parts cur q)"
  by (induction cs parts cur q rule: scanLine.induct) (auto split: if_splits)

lemma trim_split: "\<exists>b. dropWhile isWhiteSpace s = trim s @ b \<and> (trim s = [] \<or> \<not> isWhiteSpace (last (trim s)))"
proof -
  let ?u = "dropWhile isWhiteSpace s"
  have "rev (dropWhile isWhiteSpace (rev ?u)) @ rev (takeWhile isWhiteSpace (rev ?u)) =
        rev (takeWhile isWhiteSpace (rev ?u) @ dropWhile isWhiteSpace (rev ?u))"
    by (simp only: rev_append)
  also have "\<dots> = ?u"
    by (simp only: takeWhile_dropWhile_id rev_rev_ident)
  finally have 1: "?u = trim s @ rev (takeWhile isWhiteSpace (rev ?u))"
    by (simp add: trim_def)
  have "dropWhile isWhiteSpace (rev ?u) \<noteq> [] \<Longrightarrow> \<not> isWhiteSpace (hd (dropWhile isWhiteSpace (rev ?u)))"
    by (rule hd_dropWhile)
  then have 2: "trim s = [] \<or> \<not> isWhiteSpace (last (trim s))"
    by (auto simp: trim_def last_rev)
  from 1 2 show ?thesis by blast
qed

lemma noOuterSpace_trim: "noOuterSpace (trim s)"
proof (cases "trim s = []")
  case True
  then show ?thesis by (simp add: noOuterSpace_def)
next
  case False
  from trim_split [of s] obtain b where
    u: "dropWhile isWhiteSpace s = trim s @ b" and l: "\<not> isWhiteSpace (last (trim s))"
    using False by blast
  from u False have ne: "dropWhile isWhiteSpace s \<noteq> []" by auto
  then have "\<not> isWhiteSpace (hd (dropWhile isWhiteSpace s))" by (rule hd_dropWhile)
  with u False have "\<not> isWhiteSpace (hd (trim s))" by (simp add: hd_append)
  with l show ?thesis by (simp add: noOuterSpace_def)
qed

lemma trim_Nil: "trim [] = []"
  by (simp add: trim_def)

lemma uncategorized_noOuter: "noOuterSpace ''Uncategorized''"
  by (simp add: noOuterSpace_def isWhiteSpace_def)

lemma parseRow_fields:
  assumes ok: "parseRow h parts = Inr e" and nq: "\<forall>p \<in> set parts. CHR 0x22 \<notin> set p"
    and len: "nat (idx h ''description'') < length parts"
  shows "id_e e = trim (field h parts ''id'') \<and> id_e e \<noteq> [] \<and>
         date e = trim (field h parts ''date'') \<and> isDateFormat (date e) \<and>
         amount e = parseFloat (trim (field h parts ''amount'')) \<and> \<not> isNaN (amount e) \<and>
         category e = (if trim (field h parts ''category'') \<noteq> []
                       then trim (field h parts ''category'') else ''Uncategorized'') \<and>
         description e = trim (field h parts ''description'') \<and>
         tags e = filter (\<lambda>t. t \<noteq> []) (map trim (splitOn CHR '';'' (trim (field h parts ''tags''))))"
proof -
  let ?d = "field h parts ''description''"
  from nq len have "CHR 0x22 \<notin> set ?d" by (simp add: field_def)
  then have "CHR 0x22 \<notin> set (dropWhile isWhiteSpace ?d)"
    using set_dropWhileD by fastforce
  moreover obtain b where "dropWhile isWhiteSpace ?d = trim ?d @ b"
    using trim_split [of ?d] by blast
  ultimately have q: "CHR 0x22 \<notin> set (trim ?d)" by auto
  then have ns: "\<not> startsWith (trim ?d) [CHR 0x22]"
    by (cases "trim ?d") (auto simp: startsWith_def)
  have ns': "\<not> startsWith [] [CHR 0x22]" by (simp add: startsWith_def)
  from ok show ?thesis
    by (auto simp: parseRow_def Let_def field_def [symmetric] ns ns' trim_Nil
        split: if_splits)
qed

lemma eval_badHeader:
  "importExpenses badHeaderText =
     \<lparr> expenses = [],
       errors = [''Missing required columns: id, date, amount, category, description, tags''] \<rparr>"
  by code_simp

lemma eval_shuffled_header:
  "headerOf shuffledText = [''tags'', ''description'', ''category'', ''amount'', ''date'', ''id'', ''extra'']"
  by code_simp

lemma eval_shuffled:
  "importExpenses shuffledText =
     \<lparr> expenses = [\<lparr> id_e = ''9'', amount = Fin 5, date = ''2023-01-01'', category = ''c'',
                      description = ''d'', tags = [''t1'', ''t2''] \<rparr>],
       errors = [] \<rparr>"
  by code_simp

lemma eval_mixed:
  "importExpenses mixedText =
     \<lparr> expenses = [\<lparr> id_e = ''99'', amount = Fin (21 / 2), date = ''2023-01-01'',
                      category = ''Test'', description = ''Desc'', tags = [''tag1'', ''tag2''] \<rparr>],
       errors = [''Line 2: Insufficient columns''] \<rparr>"
  by code_simp

lemma eval_mixed_header: "headerOf mixedText = requiredCols \<and> length (splitLines mixedText) = 3"
  by code_simp

lemma eval_oddAmounts:
  "importExpenses oddAmountsText =
     \<lparr> expenses = [\<lparr> id_e = ''5'', amount = PInf, date = ''2023-01-01'',
                      category = ''Uncategorized'', description = [], tags = [] \<rparr>,
                   \<lparr> id_e = ''6'', amount = Fin 1, date = ''2023-01-01'',
                      category = ''Uncategorized'', description = [], tags = [] \<rparr>],
       errors = [''Line 4: Invalid Amount''] \<rparr>"
  by code_simp

lemma eval_quotedLine:
  "scanLine quotedLine [] [] False = [''1'', ''2024-01-01'', ''5'', ''Food'', ''ab'', '''']"
  by code_simp

lemma eval_quoted_import:
  "importExpenses quotedText =
     \<lparr> expenses = [\<lparr> id_e = ''1'', amount = Fin 5, date = ''2024-01-01'', category = ''Food'',
                      description = ''ab'', tags = [] \<rparr>],
       errors = [] \<rparr>"
  by code_simp

lemma eval_bad_amount_row:
  "trim ''7,2023-01-01,x,,,'' = ''7,2023-01-01,x,,,'' \<and>
   scanLine ''7,2023-01-01,x,,,'' [] [] False = [''7'', ''2023-01-01'', ''x'', [], [], []] \<and>
   map (idx requiredCols) requiredCols = [0, 1, 2, 3, 4, 5] \<and>
   trim ''7'' = ''7'' \<and> trim ''2023-01-01'' = ''2023-01-01'' \<and> trim ''x'' = ''x'' \<and>
   isDateFormat ''2023-01-01'' \<and> isNaN (parseFloat ''x'') \<and>
   lineError 3 ''Invalid Amount'' = ''Line 4: Invalid Amount''"
  by code_simp

lemma rowProblem_mem_not_file:
  "e \<in> set (List.map_filter (rowProblem h) xs) \<Longrightarrow> \<not> fileProblem e"
  using map_filter_mem rowProblem_not_file by fastforce

lemma fileProblem_msgs:
  "fileProblem ''File is empty or missing headers''"
  "fileProblem (''Missing required columns: '' @ join '', '' requiredCols)"
  by (simp_all add: fileProblem_def)

text \<open>
  Claim C7. \<open>importExpenses\<close> returns no record and exactly one file-level problem
  exactly when the text has fewer than two lines (no line feed at all) or the header
  lacks one of the six required names. The test on the header reads only the set of its
  names, so their order does not matter, and for a header that has them all, every
  \<open>idx\<close> is the position at which the header carries that name.
\<close>

theorem importExpenses_wholesale:
  "((expenses (importExpenses t) = [] \<and> length (errors (importExpenses t)) = 1 \<and>
     fileProblem (hd (errors (importExpenses t)))) \<longleftrightarrow>
    (length (splitLines t) < 2 \<or> \<not> set requiredCols \<subseteq> set (headerOf t))) \<and>
   (length (splitLines t) < 2 \<longleftrightarrow> CHR 0x0A \<notin> set t) \<and>
   (set requiredCols \<subseteq> set (headerOf t) \<longrightarrow>
     (\<forall>c \<in> set requiredCols.
        0 \<le> idx (headerOf t) c \<and> nat (idx (headerOf t) c) < length (headerOf t) \<and>
        headerOf t ! nat (idx (headerOf t) c) = c))"
proof (intro conjI)
  show "(expenses (importExpenses t) = [] \<and> length (errors (importExpenses t)) = 1 \<and>
     fileProblem (hd (errors (importExpenses t)))) \<longleftrightarrow>
    (length (splitLines t) < 2 \<or> \<not> set requiredCols \<subseteq> set (headerOf t))"
  proof (cases "length (splitLines t) < 2 \<or> \<not> set requiredCols \<subseteq> set (headerOf t)")
    case True
    show ?thesis
    proof (cases "length (splitLines t) < 2")
      case short: True
      then have "importExpenses t =
          \<lparr> expenses = [], errors = [''File is empty or missing headers''] \<rparr>"
        by (simp add: importExpenses_cases)
      with True show ?thesis by (simp add: fileProblem_def)
    next
      case long: False
      with True have "importExpenses t =
          \<lparr> expenses = [],
            errors = [''Missing required columns: '' @ join '', '' requiredCols] \<rparr>"
        by (simp add: importExpenses_cases)
      with True show ?thesis by (simp add: fileProblem_def)
    qed
  next
    case False
    let ?er = "List.map_filter (rowProblem (headerOf t))
                 (zip [1..<length (splitLines t)] (drop 1 (splitLines t)))"
    from False have er: "errors (importExpenses t) = ?er"
      by (simp add: importExpenses_cases)
    have "\<not> (length ?er = 1 \<and> fileProblem (hd ?er))"
    proof
      assume a: "length ?er = 1 \<and> fileProblem (hd ?er)"
      then have "?er \<noteq> []" by auto
      then have "hd ?er \<in> set ?er" by (rule hd_in_set)
      then have "\<not> fileProblem (hd ?er)" by (rule rowProblem_mem_not_file)
      with a show False by simp
    qed
    with False er show ?thesis by simp
  qed
  show "length (splitLines t) < 2 \<longleftrightarrow> CHR 0x0A \<notin> set t"
    by (rule few_lines)
  show "set requiredCols \<subseteq> set (headerOf t) \<longrightarrow>
     (\<forall>c \<in> set requiredCols.
        0 \<le> idx (headerOf t) c \<and> nat (idx (headerOf t) c) < length (headerOf t) \<and>
        headerOf t ! nat (idx (headerOf t) c) = c)"
    using indexOf_present [of _ "headerOf t"] by (auto simp: idx_def)
qed

theorem importExpenses_wholesale_witness:
  "importExpenses badHeaderText =
     \<lparr> expenses = [],
       errors = [''Missing required columns: id, date, amount, category, description, tags''] \<rparr> \<and>
   \<not> set requiredCols \<subseteq> set (headerOf badHeaderText) \<and>
   set requiredCols \<subseteq> set (headerOf shuffledText) \<and>
   headerOf shuffledText ! nat (idx (headerOf shuffledText) ''id'') = ''id'' \<and>
   headerOf shuffledText ! nat (idx (headerOf shuffledText) ''tags'') = ''tags'' \<and>
   importExpenses shuffledText =
     \<lparr> expenses = [\<lparr> id_e = ''9'', amount = Fin 5, date = ''2023-01-01'', category = ''c'',
                      description = ''d'', tags = [''t1'', ''t2''] \<rparr>],
       errors = [] \<rparr>"
proof -
  have h: "set requiredCols \<subseteq> set (headerOf shuffledText)"
    by (simp add: eval_shuffled_header requiredCols_def)
  have m: "''id'' \<in> set requiredCols" "''tags'' \<in> set requiredCols"
    by (simp_all add: requiredCols_def)
  have b: "length (splitLines badHeaderText) < 2 \<longleftrightarrow> CHR 0x0A \<notin> set badHeaderText"
    using importExpenses_wholesale [of badHeaderText] by blast
  then have b2: "\<not> length (splitLines badHeaderText) < 2"
    by (simp add: badHeaderText_def)
  have "\<not> set requiredCols \<subseteq> set (headerOf badHeaderText)"
    using importExpenses_wholesale [of badHeaderText] b2
    by (simp add: eval_badHeader fileProblem_def requiredCols_def)
  with h m importExpenses_wholesale [of shuffledText] show ?thesis
    by (simp add: eval_badHeader eval_shuffled)
qed

lemma digitChar_value:
  assumes "0 \<le> d" "d < 10"
  shows "of_char (digitChar d) - 48 = nat d" and "isDigit (digitChar d)"
    and "0 < d \<Longrightarrow> digitChar d \<noteq> CHR ''0''"
proof -
  from assms have "d = 0 \<or> d = 1 \<or> d = 2 \<or> d = 3 \<or> d = 4 \<or> d = 5 \<or> d = 6 \<or> d = 7 \<or>
      d = 8 \<or> d = 9"
    by arith
  then show "of_char (digitChar d) - 48 = nat d" and "isDigit (digitChar d)"
    and "0 < d \<Longrightarrow> digitChar d \<noteq> CHR ''0''"
    by (auto simp: digitChar_def isDigit_def)
qed

lemma decimalValue_snoc:
  "decimalValue (xs @ [c]) = 10 * decimalValue xs + (of_char c - 48)"
  by (simp add: decimalValue_def)

lemma showNat_small: "n < 10 \<Longrightarrow> showNat n = [digitChar (max n 0)]"
  by (subst showNat.simps) simp

lemma showNat_large: "\<not> n < 10 \<Longrightarrow> showNat n = showNat (n div 10) @ [digitChar (n mod 10)]"
  by (subst showNat.simps) simp

lemma showNat_decimal:
  "0 \<le> n \<Longrightarrow>
   decimalValue (showNat n) = nat n \<and> list_all isDigit (showNat n) \<and> showNat n \<noteq> [] \<and>
   (0 < n \<longrightarrow> hd (showNat n) \<noteq> CHR ''0'')"
proof (induction n rule: showNat.induct)
  case (1 n)
  show ?case
  proof (cases "n < 10")
    case True
    with "1.prems" digitChar_value [of n] show ?thesis
      by (simp add: showNat_small decimalValue_def max_def)
  next
    case False
    then have "0 \<le> n div 10" "0 < n div 10" by auto
    with 1 False have ih: "decimalValue (showNat (n div 10)) = nat (n div 10)"
      "list_all isDigit (showNat (n div 10))" "showNat (n div 10) \<noteq> []"
      "hd (showNat (n div 10)) \<noteq> CHR ''0''"
      by auto
    have m: "0 \<le> n mod 10" "n mod 10 < 10" by auto
    have "int (10 * nat (n div 10) + nat (n mod 10)) = n"
      using \<open>0 \<le> n div 10\<close> by simp
    then have "nat n = 10 * nat (n div 10) + nat (n mod 10)"
      by (metis nat_int)
    with ih digitChar_value(1,2) [OF m] show ?thesis
      by (simp add: showNat_large [OF False] decimalValue_snoc hd_append)
  qed
qed

lemma lineError_number:
  "\<exists>ds. lineError i msg = ''Line '' @ ds @ '': '' @ msg \<and> ds \<noteq> [] \<and> list_all isDigit ds \<and>
        hd ds \<noteq> CHR ''0'' \<and> decimalValue ds = i + 1"
proof -
  have "0 \<le> int i + 1" "0 < int i + 1" by simp_all
  with showNat_decimal [of "int i + 1"]
  have "decimalValue (showNat (int i + 1)) = i + 1" "list_all isDigit (showNat (int i + 1))"
    "showNat (int i + 1) \<noteq> []" "hd (showNat (int i + 1)) \<noteq> CHR ''0''"
    by (simp_all add: nat_add_distrib)
  then show ?thesis
    unfolding lineError_def by blast
qed

text \<open>
  Claim C8. With a valid header, every line after the header is decoded on its own:
  the records returned are those of the lines that validate, in order, and the problems
  are those of the lines that do not. The problem of \<open>lines[i]\<close> is the text
  \<open>Line\<close>, a space, the decimal numeral of \<open>i + 1\<close> (digits only, no leading
  zero), a colon, a space and the message: the header being \<open>lines[0]\<close>, that is the
  number of the line counted from 1. A line with a problem neither stops the loop nor
  removes a record.
\<close>

theorem importExpenses_partial:
  "2 \<le> length (splitLines t) \<Longrightarrow> set requiredCols \<subseteq> set (headerOf t) \<Longrightarrow>
   expenses (importExpenses t) =
     List.map_filter (rowRecord (headerOf t)) (drop 1 (splitLines t)) \<and>
   errors (importExpenses t) =
     List.map_filter (rowProblem (headerOf t))
       (zip [1..<length (splitLines t)] (drop 1 (splitLines t))) \<and>
   (\<exists>ds. lineError i msg = ''Line '' @ ds @ '': '' @ msg \<and> ds \<noteq> [] \<and> list_all isDigit ds \<and>
         hd ds \<noteq> CHR ''0'' \<and> decimalValue ds = i + 1)"
  using lineError_number [of i msg] by (simp add: importExpenses_cases)

lemma eval_line_two:
  "lineError 1 ''Insufficient columns'' = ''Line 2: Insufficient columns'' \<and> decimalValue ''2'' = 2"
  by code_simp

theorem importExpenses_partial_witness:
  "2 \<le> length (splitLines mixedText) \<and> set requiredCols \<subseteq> set (headerOf mixedText) \<and>
   List.map_filter (rowRecord (headerOf mixedText)) (drop 1 (splitLines mixedText)) =
     [\<lparr> id_e = ''99'', amount = Fin (21 / 2), date = ''2023-01-01'',
        category = ''Test'', description = ''Desc'', tags = [''tag1'', ''tag2''] \<rparr>] \<and>
   List.map_filter (rowProblem (headerOf mixedText))
       (zip [1..<length (splitLines mixedText)] (drop 1 (splitLines mixedText))) =
     [''Line 2: Insufficient columns''] \<and>
   lineError 1 ''Insufficient columns'' = ''Line 2: Insufficient columns'' \<and>
   decimalValue ''2'' = 2"
proof -
  have 1: "2 \<le> length (splitLines mixedText)" and 2: "set requiredCols \<subseteq> set (headerOf mixedText)"
    by (simp_all add: eval_mixed_header)
  from importExpenses_partial [OF 1 2, of 1 "''Insufficient columns''"] 1 2 eval_line_two
  show ?thesis
    by (simp add: eval_mixed)
qed

lemma record_from_row':
  "e \<in> set (expenses (importExpenses t)) \<Longrightarrow>
   \<exists>line. set requiredCols \<subseteq> set (headerOf t) \<and>
     length (headerOf t) \<le> length (scanLine line [] [] False) \<and>
     parseRow (headerOf t) (scanLine line [] [] False) = Inr e"
proof -
  assume a: "e \<in> set (expenses (importExpenses t))"
  then have h: "set requiredCols \<subseteq> set (headerOf t)"
    and "e \<in> set (List.map_filter (rowRecord (headerOf t)) (drop 1 (splitLines t)))"
    by (simp_all add: importExpenses_cases split: if_splits)
  then obtain raw where "rowRecord (headerOf t) raw = Some e"
    using map_filter_mem by fastforce
  then have "length (headerOf t) \<le> length (scanLine (trim raw) [] [] False) \<and>
      parseRow (headerOf t) (scanLine (trim raw) [] [] False) = Inr e"
    by (auto simp: rowRecord_def rowOutcome_def Let_def split: option.splits sum.splits if_splits)
  with h show ?thesis by blast
qed

lemma record_fields:
  assumes "e \<in> set (expenses (importExpenses t))"
  shows "\<exists>h parts.
         id_e e = trim (field h parts ''id'') \<and> id_e e \<noteq> [] \<and>
         date e = trim (field h parts ''date'') \<and> isDateFormat (date e) \<and>
         amount e = parseFloat (trim (field h parts ''amount'')) \<and> \<not> isNaN (amount e) \<and>
         category e = (if trim (field h parts ''category'') \<noteq> []
                       then trim (field h parts ''category'') else ''Uncategorized'') \<and>
         description e = trim (field h parts ''description'') \<and>
         tags e = filter (\<lambda>t. t \<noteq> []) (map trim (splitOn CHR '';'' (trim (field h parts ''tags''))))"
proof -
  from record_from_row' [OF assms] obtain line where
    h: "set requiredCols \<subseteq> set (headerOf t)" and
    len: "length (headerOf t) \<le> length (scanLine line [] [] False)" and
    ok: "parseRow (headerOf t) (scanLine line [] [] False) = Inr e"
    by blast
  have "''description'' \<in> set (headerOf t)"
    using h by (auto simp: requiredCols_def)
  from indexOf_present [OF this] len
  have l: "nat (idx (headerOf t) ''description'') < length (scanLine line [] [] False)"
    by (simp add: idx_def)
  have nq: "\<forall>p \<in> set (scanLine line [] [] False). CHR 0x22 \<notin> set p"
    by (rule scanLine_no_quote) simp_all
  from parseRow_fields [OF ok nq l] show ?thesis by blast
qed

text \<open>
  Claim C4, as amended. A non-empty row that has enough columns, an id and a date of
  the right format, and whose trimmed amount text \<open>parseFloat\<close> turns into \<open>NaN\<close>,
  yields the problem \<open>Invalid Amount\<close> under its line number and no record; and no
  record returned by \<open>importExpenses\<close> has the amount \<open>NaN\<close>. The check is
  \<open>isNaN\<close>, so an amount may be infinite, and a text with a numeric prefix is read as
  that prefix.
\<close>

theorem invalid_amount_rejected:
  assumes "trim raw \<noteq> []"
    and "length h \<le> length (scanLine (trim raw) [] [] False)"
    and "trim (field h (scanLine (trim raw) [] [] False) ''id'') \<noteq> []"
    and "isDateFormat (trim (field h (scanLine (trim raw) [] [] False) ''date''))"
    and "isNaN (parseFloat (trim (field h (scanLine (trim raw) [] [] False) ''amount'')))"
  shows "processLine h i raw acc = (fst acc, snd acc @ [lineError i ''Invalid Amount'']) \<and>
         list_all (\<lambda>e. \<not> isNaN (amount e)) (expenses (importExpenses t))"
proof
  from assms show "processLine h i raw acc = (fst acc, snd acc @ [lineError i ''Invalid Amount''])"
    by (simp add: processLine_def parseRow_def Let_def field_def)
  show "list_all (\<lambda>e. \<not> isNaN (amount e)) (expenses (importExpenses t))"
    unfolding list_all_iff using record_fields [of _ t] by blast
qed

theorem invalid_amount_rejected_witness:
  "processLine requiredCols 3 ''7,2023-01-01,x,,,'' ([], []) = ([], [''Line 4: Invalid Amount'']) \<and>
   list_all (\<lambda>e. \<not> isNaN (amount e)) (expenses (importExpenses oddAmountsText))"
proof -
  have s: "scanLine ''7,2023-01-01,x,,,'' [] [] False = [''7'', ''2023-01-01'', ''x'', [], [], []]"
    and t: "trim ''7,2023-01-01,x,,,'' = ''7,2023-01-01,x,,,''"
    and i: "map (idx requiredCols) requiredCols = [0, 1, 2, 3, 4, 5]"
    using eval_bad_amount_row by blast+
  from i have i': "idx requiredCols ''id'' = 0" "idx requiredCols ''date'' = 1"
    "idx requiredCols ''amount'' = 2"
    by (simp_all add: requiredCols_def)
  show ?thesis
    using invalid_amount_rejected [of "''7,2023-01-01,x,,,''" requiredCols 3 "([], [])" oddAmountsText]
      eval_bad_amount_row
    by (simp add: s t i' field_def requiredCols_def)
qed

text \<open>
  Claim C4 as stated fails: the row with the amount \<open>Infinity\<close> raises no problem and
  is returned with an amount that is not finite, and \<open>1x\<close> is accepted as 1.
\<close>

theorem infinite_amount_accepted:
  "map amount (expenses (importExpenses oddAmountsText)) = [PInf, Fin 1] \<and>
   \<not> isFinite PInf \<and>
   errors (importExpenses oddAmountsText) = [''Line 4: Invalid Amount'']"
  by (simp add: eval_oddAmounts isFinite_def)

lemma trim_parts:
  "\<exists>a b. s = a @ trim s @ b \<and> list_all isWhiteSpace a \<and> list_all isWhiteSpace b"
proof -
  let ?u = "dropWhile isWhiteSpace s"
  let ?b = "rev (takeWhile isWhiteSpace (rev ?u))"
  have "rev (dropWhile isWhiteSpace (rev ?u)) @ ?b =
        rev (takeWhile isWhiteSpace (rev ?u) @ dropWhile isWhiteSpace (rev ?u))"
    by (simp only: rev_append)
  also have "\<dots> = ?u"
    by (simp only: takeWhile_dropWhile_id rev_rev_ident)
  finally have u: "?u = trim s @ ?b" by (simp add: trim_def)
  have "s = takeWhile isWhiteSpace s @ ?u" by simp
  with u have "s = takeWhile isWhiteSpace s @ trim s @ ?b" by simp
  moreover have "list_all isWhiteSpace (takeWhile isWhiteSpace s)"
    by (simp add: list_all_iff) (meson set_takeWhileD)
  moreover have "list_all isWhiteSpace ?b"
    by (simp add: list_all_iff) (meson set_takeWhileD)
  ultimately show ?thesis by blast
qed

lemma record_from_line:
  "e \<in> set (expenses (importExpenses t)) \<Longrightarrow>
   \<exists>raw \<in> set (drop 1 (splitLines t)).
     set requiredCols \<subseteq> set (headerOf t) \<and>
     length (headerOf t) \<le> length (scanLine (trim raw) [] [] False) \<and>
     parseRow (headerOf t) (scanLine (trim raw) [] [] False) = Inr e"
proof -
  assume a: "e \<in> set (expenses (importExpenses t))"
  then have h: "set requiredCols \<subseteq> set (headerOf t)"
    and "e \<in> set (List.map_filter (rowRecord (headerOf t)) (drop 1 (splitLines t)))"
    by (simp_all add: importExpenses_cases split: if_splits)
  then obtain raw where r: "raw \<in> set (drop 1 (splitLines t))"
    and "rowRecord (headerOf t) raw = Some e"
    using map_filter_mem by fastforce
  then have "length (headerOf t) \<le> length (scanLine (trim raw) [] [] False) \<and>
      parseRow (headerOf t) (scanLine (trim raw) [] [] False) = Inr e"
    by (auto simp: rowRecord_def rowOutcome_def Let_def split: option.splits sum.splits if_splits)
  with h r show ?thesis by blast
qed

lemma record_of_line:
  assumes "e \<in> set (expenses (importExpenses t))"
  shows "\<exists>raw \<in> set (drop 1 (splitLines t)).
         id_e e = trim (field (headerOf t) (scanLine (trim raw) [] [] False) ''id'') \<and>
         date e = trim (field (headerOf t) (scanLine (trim raw) [] [] False) ''date'') \<and>
         amount e = parseFloat (trim (field (headerOf t) (scanLine (trim raw) [] [] False) ''amount'')) \<and>
         category e =
           (if trim (field (headerOf t) (scanLine (trim raw) [] [] False) ''category'') \<noteq> []
            then trim (field (headerOf t) (scanLine (trim raw) [] [] False) ''category'')
            else ''Uncategorized'') \<and>
         description e = trim (field (headerOf t) (scanLine (trim raw) [] [] False) ''description'') \<and>
         tags e = filter (\<lambda>t. t \<noteq> [])
                    (map trim (splitOn CHR '';''
                       (trim (field (headerOf t) (scanLine (trim raw) [] [] False) ''tags''))))"
proof -
  from record_from_line [OF assms] obtain raw where
    r: "raw \<in> set (drop 1 (splitLines t))" and
    h: "set requiredCols \<subseteq> set (headerOf t)" and
    len: "length (headerOf t) \<le> length (scanLine (trim raw) [] [] False)" and
    ok: "parseRow (headerOf t) (scanLine (trim raw) [] [] False) = Inr e"
    by blast
  have "''description'' \<in> set (headerOf t)"
    using h by (auto simp: requiredCols_def)
  from indexOf_present [OF this] len
  have l: "nat (idx (headerOf t) ''description'') < length (scanLine (trim raw) [] [] False)"
    by (simp add: idx_def)
  have nq: "\<forall>p \<in> set (scanLine (trim raw) [] [] False). CHR 0x22 \<notin> set p"
    by (rule scanLine_no_quote) simp_all
  from parseRow_fields [OF ok nq l] r show ?thesis by blast
qed

text \<open>
  Claim C10. Every record that \<open>importExpenses\<close> returns comes from a line after the
  header, and its fields are the trimmed fields of that line: the id, the date and the
  description are the trimmed texts of their columns, the amount is \<open>parseFloat\<close> of
  the trimmed text, the category is the trimmed text or \<open>Uncategorized\<close> when that is
  empty, and the tags are the trimmed pieces between semicolons of the trimmed text,
  without the empty ones. So the id is not empty, and neither the id, the date, the
  category, the description nor any tag begins or ends with white space. \<open>trim\<close>
  removes white space at both ends and nothing else.
\<close>

theorem decoded_fields_trimmed:
  "(\<forall>e \<in> set (expenses (importExpenses t)).
     (\<exists>raw \<in> set (drop 1 (splitLines t)).
         id_e e = trim (field (headerOf t) (scanLine (trim raw) [] [] False) ''id'') \<and>
         date e = trim (field (headerOf t) (scanLine (trim raw) [] [] False) ''date'') \<and>
         amount e = parseFloat (trim (field (headerOf t) (scanLine (trim raw) [] [] False) ''amount'')) \<and>
         category e =
           (if trim (field (headerOf t) (scanLine (trim raw) [] [] False) ''category'') \<noteq> []
            then trim (field (headerOf t) (scanLine (trim raw) [] [] False) ''category'')
            else ''Uncategorized'') \<and>
         description e = trim (field (headerOf t) (scanLine (trim raw) [] [] False) ''description'') \<and>
         tags e = filter (\<lambda>t. t \<noteq> [])
                    (map trim (splitOn CHR '';''
                       (trim (field (headerOf t) (scanLine (trim raw) [] [] False) ''tags''))))) \<and>
     id_e e \<noteq> [] \<and> noOuterSpace (id_e e) \<and> noOuterSpace (date e) \<and>
     noOuterSpace (category e) \<and> noOuterSpace (description e) \<and>
     (\<forall>tg \<in> set (tags e). tg \<noteq> [] \<and> noOuterSpace tg)) \<and>
   (\<exists>a b. s = a @ trim s @ b \<and> list_all isWhiteSpace a \<and> list_all isWhiteSpace b) \<and>
   noOuterSpace (trim s)"
proof (intro conjI)
  show "\<forall>e \<in> set (expenses (importExpenses t)).
     (\<exists>raw \<in> set (drop 1 (splitLines t)).
         id_e e = trim (field (headerOf t) (scanLine (trim raw) [] [] False) ''id'') \<and>
         date e = trim (field (headerOf t) (scanLine (trim raw) [] [] False) ''date'') \<and>
         amount e = parseFloat (trim (field (headerOf t) (scanLine (trim raw) [] [] False) ''amount'')) \<and>
         category e =
           (if trim (field (headerOf t) (scanLine (trim raw) [] [] False) ''category'') \<noteq> []
            then trim (field (headerOf t) (scanLine (trim raw) [] [] False) ''category'')
            else ''Uncategorized'') \<and>
         description e = trim (field (headerOf t) (scanLine (trim raw) [] [] False) ''description'') \<and>
         tags e = filter (\<lambda>t. t \<noteq> [])
                    (map trim (splitOn CHR '';''
                       (trim (field (headerOf t) (scanLine (trim raw) [] [] False) ''tags''))))) \<and>
     id_e e \<noteq> [] \<and> noOuterSpace (id_e e) \<and> noOuterSpace (date e) \<and>
     noOuterSpace (category e) \<and> noOuterSpace (description e) \<and>
     (\<forall>tg \<in> set (tags e). tg \<noteq> [] \<and> noOuterSpace tg)"
  proof
    fix e assume e: "e \<in> set (expenses (importExpenses t))"
    from record_fields [OF e] obtain h parts where
      f: "id_e e = trim (field h parts ''id'')" "id_e e \<noteq> []"
         "date e = trim (field h parts ''date'')"
         "category e = (if trim (field h parts ''category'') \<noteq> []
                         then trim (field h parts ''category'') else ''Uncategorized'')"
         "description e = trim (field h parts ''description'')"
         "tags e = filter (\<lambda>t. t \<noteq> []) (map trim (splitOn CHR '';'' (trim (field h parts ''tags''))))"
      by blast
    note r = record_of_line [OF e]
    have 1: "noOuterSpace (id_e e)" by (simp add: f(1) noOuterSpace_trim)
    have 2: "noOuterSpace (date e)" by (simp add: f(3) noOuterSpace_trim)
    have 3: "noOuterSpace (category e)" by (simp add: f(4) noOuterSpace_trim uncategorized_noOuter)
    have 4: "noOuterSpace (description e)" by (simp add: f(5) noOuterSpace_trim)
    have 5: "\<forall>tg \<in> set (tags e). tg \<noteq> [] \<and> noOuterSpace tg"
      by (auto simp: f(6) noOuterSpace_trim)
    show "(\<exists>raw \<in> set (drop 1 (splitLines t)).
         id_e e = trim (field (headerOf t) (scanLine (trim raw) [] [] False) ''id'') \<and>
         date e = trim (field (headerOf t) (scanLine (trim raw) [] [] False) ''date'') \<and>
         amount e = parseFloat (trim (field (headerOf t) (scanLine (trim raw) [] [] False) ''amount'')) \<and>
         category e =
           (if trim (field (headerOf t) (scanLine (trim raw) [] [] False) ''category'') \<noteq> []
            then trim (field (headerOf t) (scanLine (trim raw) [] [] False) ''category'')
            else ''Uncategorized'') \<and>
         description e = trim (field (headerOf t) (scanLine (trim raw) [] [] False) ''description'') \<and>
         tags e = filter (\<lambda>t. t \<noteq> [])
                    (map trim (splitOn CHR '';''
                       (trim (field (headerOf t) (scanLine (trim raw) [] [] False) ''tags''))))) \<and>
     id_e e \<noteq> [] \<and> noOuterSpace (id_e e) \<and> noOuterSpace (date e) \<and>
     noOuterSpace (category e) \<and> noOuterSpace (description e) \<and>
     (\<forall>tg \<in> set (tags e). tg \<noteq> [] \<and> noOuterSpace tg)"
      by (intro conjI) (rule r, rule f(2), rule 1, rule 2, rule 3, rule 4, rule 5)
  qed
  show "\<exists>a b. s = a @ trim s @ b \<and> list_all isWhiteSpace a \<and> list_all isWhiteSpace b"
    by (rule trim_parts)
  show "noOuterSpace (trim s)" by (rule noOuterSpace_trim)
qed

lemma eval_shuffled_row:
  "drop 1 (splitLines shuffledText) = ['' t1 ; ;t2 ,d,c,5,2023-01-01, 9 ,zz''] \<and>
   trim '' t1 ; ;t2 ,d,c,5,2023-01-01, 9 ,zz'' = ''t1 ; ;t2 ,d,c,5,2023-01-01, 9 ,zz'' \<and>
   scanLine ''t1 ; ;t2 ,d,c,5,2023-01-01, 9 ,zz'' [] [] False =
     [''t1 ; ;t2 '', ''d'', ''c'', ''5'', ''2023-01-01'', '' 9 '', ''zz''] \<and>
   field (headerOf shuffledText) [''t1 ; ;t2 '', ''d'', ''c'', ''5'', ''2023-01-01'', '' 9 '', ''zz''] ''id'' = '' 9 '' \<and>
   field (headerOf shuffledText) [''t1 ; ;t2 '', ''d'', ''c'', ''5'', ''2023-01-01'', '' 9 '', ''zz''] ''tags'' = ''t1 ; ;t2 '' \<and>
   trim '' 9 '' = ''9'' \<and>
   filter (\<lambda>t. t \<noteq> []) (map trim (splitOn CHR '';'' (trim ''t1 ; ;t2 ''))) = [''t1'', ''t2''] \<and>
   noOuterSpace ''9'' \<and> noOuterSpace ''t1'' \<and> noOuterSpace ''t2''"
  by code_simp

theorem decoded_fields_trimmed_witness:
  "expenses (importExpenses shuffledText) =
     [\<lparr> id_e = ''9'', amount = Fin 5, date = ''2023-01-01'', category = ''c'',
        description = ''d'', tags = [''t1'', ''t2''] \<rparr>] \<and>
   drop 1 (splitLines shuffledText) = ['' t1 ; ;t2 ,d,c,5,2023-01-01, 9 ,zz''] \<and>
   field (headerOf shuffledText)
     (scanLine (trim '' t1 ; ;t2 ,d,c,5,2023-01-01, 9 ,zz'') [] [] False) ''id'' = '' 9 '' \<and>
   trim '' 9 '' = ''9'' \<and>
   field (headerOf shuffledText)
     (scanLine (trim '' t1 ; ;t2 ,d,c,5,2023-01-01, 9 ,zz'') [] [] False) ''tags'' = ''t1 ; ;t2 '' \<and>
   filter (\<lambda>t. t \<noteq> []) (map trim (splitOn CHR '';'' (trim ''t1 ; ;t2 ''))) = [''t1'', ''t2''] \<and>
   noOuterSpace ''9'' \<and> noOuterSpace ''t1'' \<and> noOuterSpace ''t2''"
  using decoded_fields_trimmed [of shuffledText "'' 9 ''"] eval_shuffled_row
  by (simp add: eval_shuffled)

text \<open>
  Claim C3. The scanner of \<open>importExpenses\<close> does not keep quote characters: it
  toggles \<open>inQuotes\<close> on each one and never appends it to \<open>current\<close>, so no field it
  produces contains a double quote. The unescaping of the description that follows the
  split therefore never finds a quote to work on, and a description with quotes comes
  back without them.
\<close>

theorem scanner_drops_quotes:
  "\<forall>p \<in> set (scanLine line [] [] False). CHR 0x22 \<notin> set p"
  by (rule scanLine_no_quote) simp_all

theorem scanner_drops_quotes_witness:
  "scanLine quotedLine [] [] False = [''1'', ''2024-01-01'', ''5'', ''Food'', ''ab'', ''''] \<and>
   CHR 0x22 \<notin> set ''ab'' \<and>
   map description (expenses (importExpenses quotedText)) = [''ab'']"
  using scanner_drops_quotes [of quotedLine]
  by (simp add: eval_quotedLine eval_quoted_import)

section \<open>The round trip through the text\<close>

lemma digitChar_num: "0 \<le> d \<Longrightarrow> d < 10 \<Longrightarrow> digitChar d \<in> set ''0123456789''"
proof -
  assume "0 \<le> d" "d < 10"
  then have "nat d < length ''0123456789''" by simp
  then show ?thesis unfolding digitChar_def by (rule nth_mem)
qed

lemma showNat_digits: "set (showNat n) \<subseteq> set ''0123456789''"
proof (induction n rule: showNat.induct)
  case (1 n)
  show ?case
  proof (cases "n < 10")
    case True
    then have "digitChar (max n 0) \<in> set ''0123456789''"
      by (intro digitChar_num) auto
    with True show ?thesis by (subst showNat.simps) simp
  next
    case False
    have "digitChar (n mod 10) \<in> set ''0123456789''"
      by (intro digitChar_num) auto
    with False 1 show ?thesis by (subst showNat.simps) simp
  qed
qed

lemma digits_numChars: "set ''0123456789'' \<subseteq> numChars"
  by (simp add: numChars_def)

lemma showNat_numChars: "set (showNat n) \<subseteq> numChars"
  using showNat_digits digits_numChars by blast

lemma showExp_numChars: "set (showExp ex) \<subseteq> numChars"
  using showNat_numChars [of ex] showNat_numChars [of "- ex"]
  by (auto simp: showExp_def numChars_def)

lemma showPos_numChars: "set (showPos a) \<subseteq> numChars"
proof -
  obtain s e where se: "stripZeros (shortest a (ilog 10 a + 1) [1..<18]) = (s, e)"
    by (cases "stripZeros (shortest a (ilog 10 a + 1) [1..<18])") auto
  have ds: "set (showNat s) \<subseteq> numChars" by (rule showNat_numChars)
  have tk: "\<And>n. set (take n (showNat s)) \<subseteq> numChars"
    using ds set_take_subset by fastforce
  have dr: "\<And>n. set (drop n (showNat s)) \<subseteq> numChars"
    using ds set_drop_subset by fastforce
  have z: "\<And>n. set (replicate n CHR ''0'') \<subseteq> numChars"
    by (auto simp: numChars_def)
  have lit: "CHR ''.'' \<in> numChars" "CHR ''0'' \<in> numChars" "CHR ''e'' \<in> numChars"
    by (simp_all add: numChars_def)
  have ex: "\<And>x. set (showExp x) \<subseteq> numChars" by (rule showExp_numChars)
  show ?thesis
    unfolding showPos_def se Let_def prod.case
    using ds tk dr z lit ex
    by (simp del: set_replicate replicate.simps split: if_splits)
qed

lemma numToString_numChars: "set (numToString a) \<subseteq> numChars"
proof (cases a)
  case (Fin q)
  have m: "CHR ''-'' \<in> numChars" "CHR ''0'' \<in> numChars" by (simp_all add: numChars_def)
  with showPos_numChars [of q] showPos_numChars [of "- q"] Fin show ?thesis
    by auto
qed (simp_all add: numChars_def)

lemma numChars_plain: "set s \<subseteq> numChars \<Longrightarrow> plain s"
  by (auto simp: plain_def numChars_def)

lemma numChars_no_space: "set s \<subseteq> numChars \<Longrightarrow> c \<in> set s \<Longrightarrow> \<not> isWhiteSpace c"
  by (auto simp: numChars_def isWhiteSpace_def)

lemma trim_noOuter: "noOuterSpace s \<Longrightarrow> trim s = s"
proof (cases s)
  case Nil
  then show ?thesis by (simp add: trim_def)
next
  case (Cons x xs)
  assume "noOuterSpace s"
  with Cons have h: "\<not> isWhiteSpace x" and l: "\<not> isWhiteSpace (last s)"
    by (simp_all add: noOuterSpace_def)
  from h have 1: "dropWhile isWhiteSpace s = s" by (simp add: Cons)
  from Cons have ne: "s \<noteq> []" by simp
  then have "rev s \<noteq> []" by simp
  moreover from l ne have "\<not> isWhiteSpace (hd (rev s))" by (simp add: hd_rev)
  ultimately have "dropWhile isWhiteSpace (rev s) = rev s"
    by (cases "rev s") auto
  with 1 show ?thesis by (simp add: trim_def)
qed

lemma no_space_noOuter: "(\<And>c. c \<in> set s \<Longrightarrow> \<not> isWhiteSpace c) \<Longrightarrow> noOuterSpace s"
  by (cases s) (auto simp: noOuterSpace_def)

lemma numChars_noOuter: "set s \<subseteq> numChars \<Longrightarrow> noOuterSpace s"
  using numChars_no_space no_space_noOuter by blast

lemma isDigit_numChars: "isDigit c \<Longrightarrow> c \<in> numChars"
  by (auto simp: isDigit_def numChars_def)

lemma date_numChars: "isDateFormat d \<Longrightarrow> set d \<subseteq> numChars \<and> d \<noteq> []"
proof -
  assume a: "isDateFormat d"
  have m: "CHR ''-'' \<in> numChars" by (simp add: numChars_def)
  from a obtain y1 y2 y3 y4 d1 m1 m2 d2 t1 t2 where
    d: "d = [y1, y2, y3, y4, d1, m1, m2, d2, t1, t2]"
    by (auto simp: isDateFormat_def split: list.splits)
  with a m show ?thesis
    by (simp add: isDateFormat_def isDigit_numChars)
qed

lemma scan_plain:
  "CHR '','' \<notin> set f \<Longrightarrow> CHR 0x22 \<notin> set f \<Longrightarrow>
   scanLine (f @ rest) parts cur False = scanLine rest parts (cur @ f) False"
  by (induction f arbitrary: cur) auto

lemma scan_plain_comma:
  "CHR '','' \<notin> set f \<Longrightarrow> CHR 0x22 \<notin> set f \<Longrightarrow>
   scanLine (f @ CHR '','' # rest) parts cur False = scanLine rest (parts @ [cur @ f]) [] False"
  by (simp add: scan_plain)

lemma scan_plain_end:
  "CHR '','' \<notin> set f \<Longrightarrow> CHR 0x22 \<notin> set f \<Longrightarrow>
   scanLine f parts cur False = parts @ [cur @ f]"
  using scan_plain [of f "[]" parts cur] by simp

lemma scan_inquote:
  "CHR 0x22 \<notin> set d \<Longrightarrow>
   scanLine (d @ rest) parts cur True = scanLine rest parts (cur @ d) True"
  by (induction d arbitrary: cur) auto

lemma doubleQuotes_none: "CHR 0x22 \<notin> set d \<Longrightarrow> doubleQuotes d = d"
  by (induction d) auto

lemma scan_description:
  assumes "CHR 0x22 \<notin> set d"
  shows "scanLine (escapeDescription d @ CHR '','' # rest) parts [] False =
         scanLine rest (parts @ [d]) [] False"
proof (cases "CHR '','' \<in> set d")
  case True
  with assms have "escapeDescription d = CHR 0x22 # d @ [CHR 0x22]"
    by (simp add: escapeDescription_def includesChar_def doubleQuotes_none)
  then have "scanLine (escapeDescription d @ CHR '','' # rest) parts [] False =
             scanLine (d @ CHR 0x22 # CHR '','' # rest) parts [] True"
    by simp
  also have "\<dots> = scanLine (CHR 0x22 # CHR '','' # rest) parts ([] @ d) True"
    using assms by (rule scan_inquote)
  finally show ?thesis by simp
next
  case False
  with assms have "escapeDescription d = d"
    by (simp add: escapeDescription_def includesChar_def)
  with False assms show ?thesis
    by (simp add: scan_plain_comma)
qed

lemma splitOn_nonempty: "splitOn c s \<noteq> []"
  by (induction s) (auto split: list.splits)

lemma splitOn_plain: "c \<notin> set f \<Longrightarrow> splitOn c f = [f]"
  by (induction f) auto

lemma splitOn_append: "c \<notin> set f \<Longrightarrow> splitOn c (f @ c # rest) = f # splitOn c rest"
  by (induction f) auto

lemma join_Cons: "ts \<noteq> [] \<Longrightarrow> join sep (t # ts) = t @ sep @ join sep ts"
  by (cases ts) auto

lemma split_join:
  "ts \<noteq> [] \<Longrightarrow> list_all (\<lambda>t. c \<notin> set t) ts \<Longrightarrow> splitOn c (join [c] ts) = ts"
proof (induction ts)
  case Nil
  then show ?case by simp
next
  case (Cons t ts)
  show ?case
  proof (cases ts)
    case Nil
    with Cons.prems show ?thesis by (simp add: splitOn_plain)
  next
    case (Cons u us)
    with Cons.prems Cons.IH show ?thesis
      by (simp add: splitOn_append del: splitOn.simps)
  qed
qed

lemma set_join: "set (join sep ts) \<subseteq> set sep \<union> \<Union> (set ` set ts)"
  by (induction sep ts rule: join.induct) auto

lemma join_hd_last:
  "ts \<noteq> [] \<Longrightarrow> list_all (\<lambda>t. t \<noteq> []) ts \<Longrightarrow>
   join sep ts \<noteq> [] \<and> hd (join sep ts) = hd (hd ts) \<and> last (join sep ts) = last (last ts)"
proof (induction sep ts rule: join.induct)
  case (1 sep)
  then show ?case by simp
next
  case (2 sep x)
  then show ?case by simp
next
  case (3 sep x y ys)
  then show ?case by (simp add: hd_append)
qed

lemma splitLines_plain: "CHR 0x0A \<notin> set l \<Longrightarrow> splitLines l = [l]"
proof (induction l)
  case Nil
  then show ?case by simp
next
  case (Cons x l)
  then have nl: "x \<noteq> CHR 0x0A" and ih: "splitLines l = [l]" by auto
  from Cons.prems have "\<not> (x = CHR 0x0D \<and> (case l of [] \<Rightarrow> False | y # _ \<Rightarrow> y = CHR 0x0A))"
    by (cases l) auto
  from splitLines_step [OF nl this] ih show ?case by simp
qed

lemma splitLines_line:
  "CHR 0x0A \<notin> set l \<Longrightarrow> l = [] \<or> last l \<noteq> CHR 0x0D \<Longrightarrow>
   splitLines (l @ CHR 0x0A # rest) = l # splitLines rest"
proof (induction l)
  case Nil
  then show ?case by (simp add: splitLines_lf)
next
  case (Cons x l)
  then have nl: "x \<noteq> CHR 0x0A" and nl': "CHR 0x0A \<notin> set l" by auto
  from Cons.prems have l: "l = [] \<or> last l \<noteq> CHR 0x0D" by (auto split: if_splits)
  have ih: "splitLines (l @ CHR 0x0A # rest) = l # splitLines rest"
    using nl' l by (rule Cons.IH)
  have "\<not> (x = CHR 0x0D \<and> (case l @ CHR 0x0A # rest of [] \<Rightarrow> False | y # _ \<Rightarrow> y = CHR 0x0A))"
    using Cons.prems by (cases l) auto
  from splitLines_step [OF nl this] ih show ?case by simp
qed

lemma splitLines_join:
  "list_all (\<lambda>l. CHR 0x0A \<notin> set l \<and> (l = [] \<or> last l \<noteq> CHR 0x0D)) ls \<Longrightarrow> ls \<noteq> [] \<Longrightarrow>
   splitLines (join [CHR 0x0A] ls) = ls"
proof (induction ls)
  case Nil
  then show ?case by simp
next
  case (Cons l ls)
  show ?case
  proof (cases ls)
    case Nil
    with Cons.prems show ?thesis by (simp add: splitLines_plain)
  next
    case (Cons u us)
    with Cons.prems Cons.IH show ?thesis
      by (simp add: splitLines_line)
  qed
qed

lemma tags_joined:
  assumes "list_all (\<lambda>t. t \<noteq> [] \<and> noOuterSpace t \<and> plain t \<and> CHR '';'' \<notin> set t) ts"
  shows "plain (join '';'' ts)" and "noOuterSpace (join '';'' ts)"
    and "filter (\<lambda>t. t \<noteq> []) (map trim (splitOn CHR '';'' (join '';'' ts))) = ts"
    and "join '';'' ts = [] \<longleftrightarrow> ts = []"
    and "ts \<noteq> [] \<Longrightarrow> \<not> isWhiteSpace (last (join '';'' ts))"
proof -
  from assms have all: "\<And>t. t \<in> set ts \<Longrightarrow> t \<noteq> [] \<and> noOuterSpace t \<and> plain t \<and> CHR '';'' \<notin> set t"
    by (simp add: list_all_iff)
  have "set (join '';'' ts) \<subseteq> set '';'' \<union> \<Union> (set ` set ts)" by (rule set_join)
  with all show "plain (join '';'' ts)" by (fastforce simp: plain_def)
  have ne: "list_all (\<lambda>t. t \<noteq> []) ts" using all by (simp add: list_all_iff)
  show no: "noOuterSpace (join '';'' ts)"
  proof (cases "ts = []")
    case True
    then show ?thesis by (simp add: noOuterSpace_def)
  next
    case False
    from join_hd_last [OF False ne, of "'';''"]
    have j: "join '';'' ts \<noteq> []" "hd (join '';'' ts) = hd (hd ts)"
      "last (join '';'' ts) = last (last ts)" by simp_all
    from False have "hd ts \<in> set ts" "last ts \<in> set ts" by simp_all
    with all have "noOuterSpace (hd ts)" "hd ts \<noteq> []" "noOuterSpace (last ts)" "last ts \<noteq> []"
      by blast+
    with j show ?thesis by (simp add: noOuterSpace_def)
  qed
  show "join '';'' ts = [] \<longleftrightarrow> ts = []"
    using join_hd_last [OF _ ne, of "'';''"] by (cases "ts = []") auto
  show "filter (\<lambda>t. t \<noteq> []) (map trim (splitOn CHR '';'' (join '';'' ts))) = ts"
  proof (cases "ts = []")
    case True
    then show ?thesis by (simp add: trim_def)
  next
    case False
    have "list_all (\<lambda>t. CHR '';'' \<notin> set t) ts" using all by (simp add: list_all_iff)
    with False have "splitOn CHR '';'' (join [CHR '';''] ts) = ts" by (rule split_join)
    moreover have "map trim ts = ts"
      using all by (simp add: map_idI trim_noOuter)
    moreover have "filter (\<lambda>t. t \<noteq> []) ts = ts"
      using all by (simp add: filter_id_conv)
    ultimately show ?thesis by simp
  qed
  show "ts \<noteq> [] \<Longrightarrow> \<not> isWhiteSpace (last (join '';'' ts))"
  proof -
    assume f: "ts \<noteq> []"
    from join_hd_last [OF f ne, of "'';''"]
    have j: "last (join '';'' ts) = last (last ts)" by simp
    from f have "last ts \<in> set ts" by simp
    with all have "noOuterSpace (last ts)" "last ts \<noteq> []" by blast+
    with j show ?thesis by (simp add: noOuterSpace_def)
  qed
qed

lemma idx_required:
  "idx requiredCols ''id'' = 0" "idx requiredCols ''date'' = 1" "idx requiredCols ''amount'' = 2"
  "idx requiredCols ''category'' = 3" "idx requiredCols ''description'' = 4"
  "idx requiredCols ''tags'' = 5"
  by (simp_all add: idx_def requiredCols_def)

lemma scan_row:
  assumes "wellFormed e"
  shows "scanLine (expenseRow e) [] [] False =
         [id_e e, date e, numToString (amount e), category e, description e, join '';'' (tags e)]"
proof -
  from assms have i: "CHR '','' \<notin> set (id_e e)" "CHR 0x22 \<notin> set (id_e e)"
    and c: "CHR '','' \<notin> set (category e)" "CHR 0x22 \<notin> set (category e)"
    and q: "CHR 0x22 \<notin> set (description e)"
    and tg: "list_all (\<lambda>t. t \<noteq> [] \<and> noOuterSpace t \<and> plain t \<and> CHR '';'' \<notin> set t) (tags e)"
    and dt: "isDateFormat (date e)"
    by (simp_all add: wellFormed_def plain_def)
  from dt have "plain (date e)" using date_numChars numChars_plain by blast
  then have d: "CHR '','' \<notin> set (date e)" "CHR 0x22 \<notin> set (date e)"
    by (simp_all add: plain_def)
  have "plain (numToString (amount e))"
    using numToString_numChars numChars_plain by blast
  then have n: "CHR '','' \<notin> set (numToString (amount e))" "CHR 0x22 \<notin> set (numToString (amount e))"
    by (simp_all add: plain_def)
  from tags_joined(1) [OF tg]
  have t: "CHR '','' \<notin> set (join '';'' (tags e))" "CHR 0x22 \<notin> set (join '';'' (tags e))"
    by (simp_all add: plain_def)
  have "scanLine (expenseRow e) [] [] False =
        scanLine (id_e e @ CHR '','' # (date e @ CHR '','' # (numToString (amount e) @ CHR '','' #
          (category e @ CHR '','' # (escapeDescription (description e) @ CHR '','' #
             join '';'' (tags e)))))) [] [] False"
    by (simp add: expenseRow_def)
  also have "\<dots> = [id_e e, date e, numToString (amount e), category e, description e,
                    join '';'' (tags e)]"
    by (simp only: scan_plain_comma [OF i] scan_plain_comma [OF d] scan_plain_comma [OF n]
        scan_plain_comma [OF c] scan_description [OF q] scan_plain_end [OF t] append_Nil append_Cons)
  finally show ?thesis .
qed

lemma row_shape:
  assumes "wellFormed e"
  shows "trim (expenseRow e) = expenseRow e" and "expenseRow e \<noteq> []"
    and "CHR 0x0A \<notin> set (expenseRow e)" and "last (expenseRow e) \<noteq> CHR 0x0D"
proof -
  from assms have i: "id_e e \<noteq> []" "noOuterSpace (id_e e)" "plain (id_e e)"
    and c: "plain (category e)"
    and q: "CHR 0x0A \<notin> set (description e)"
    and tg: "list_all (\<lambda>t. t \<noteq> [] \<and> noOuterSpace t \<and> plain t \<and> CHR '';'' \<notin> set t) (tags e)"
    and dt: "isDateFormat (date e)"
    by (simp_all add: wellFormed_def)
  from dt have d: "plain (date e)" using date_numChars numChars_plain by blast
  have n: "plain (numToString (amount e))"
    using numToString_numChars numChars_plain by blast
  note t = tags_joined [OF tg]
  have esc: "set (escapeDescription d) \<subseteq> insert (CHR 0x22) (set d)" for d
  proof -
    have "set (doubleQuotes d) \<subseteq> insert (CHR 0x22) (set d)" by (induction d) auto
    then show ?thesis by (auto simp: escapeDescription_def)
  qed
  from i show ne: "expenseRow e \<noteq> []" by (simp add: expenseRow_def)
  from i c q d n t(1) esc [of "description e"] show "CHR 0x0A \<notin> set (expenseRow e)"
    by (auto simp: expenseRow_def plain_def)
  have lst: "last (expenseRow e) =
      (if tags e = [] then CHR '','' else last (join '';'' (tags e)))"
    using t(4) by (simp add: expenseRow_def)
  have ws: "\<not> isWhiteSpace (last (expenseRow e))"
    using t(5) by (simp add: lst isWhiteSpace_def)
  then show "last (expenseRow e) \<noteq> CHR 0x0D" by (auto simp: isWhiteSpace_def)
  from i have "hd (expenseRow e) = hd (id_e e)" by (simp add: expenseRow_def hd_append)
  with i ws ne have "noOuterSpace (expenseRow e)" by (simp add: noOuterSpace_def)
  then show "trim (expenseRow e) = expenseRow e" by (rule trim_noOuter)
qed

lemma parse_row:
  assumes "wellFormed e"
  shows "parseRow requiredCols
           [id_e e, date e, numToString (amount e), category e, description e, join '';'' (tags e)]
         = Inr e"
proof -
  from assms have i: "id_e e \<noteq> []" "trim (id_e e) = id_e e"
    and c: "category e \<noteq> []" "trim (category e) = category e"
    and ds: "trim (description e) = description e"
    and q: "CHR 0x22 \<notin> set (description e)"
    and tg: "list_all (\<lambda>t. t \<noteq> [] \<and> noOuterSpace t \<and> plain t \<and> CHR '';'' \<notin> set t) (tags e)"
    and dt: "isDateFormat (date e)"
    and am: "\<not> isNaN (amount e)" "parseFloat (numToString (amount e)) = amount e"
    by (simp_all add: wellFormed_def trim_noOuter)
  from dt have d: "trim (date e) = date e"
    using date_numChars numChars_noOuter trim_noOuter by blast
  have n: "trim (numToString (amount e)) = numToString (amount e)"
    using numToString_numChars numChars_noOuter trim_noOuter by blast
  note t = tags_joined [OF tg]
  have tt: "trim (join '';'' (tags e)) = join '';'' (tags e)"
    using t(2) by (rule trim_noOuter)
  from q have ns: "\<not> startsWith (description e) [CHR 0x22]"
    by (cases "description e") (auto simp: startsWith_def)
  have "parseRow requiredCols
           [id_e e, date e, numToString (amount e), category e, description e, join '';'' (tags e)]
        = Inr \<lparr> id_e = id_e e, amount = amount e, date = date e, category = category e,
                description = description e, tags = tags e \<rparr>"
    unfolding parseRow_def idx_required Let_def
    using i c ds d n tt ns t(3) t(4) dt am
    by (auto simp: startsWith_def)
  then show ?thesis by simp
qed

lemma process_row:
  assumes "wellFormed e"
  shows "processLine requiredCols i (expenseRow e) acc = (fst acc @ [e], snd acc)"
  using row_shape(1,2) [OF assms]
  by (simp add: processLine_def Let_def scan_row [OF assms] parse_row [OF assms] requiredCols_def [THEN arg_cong, of length])

lemma rows_loop:
  "list_all wellFormed es \<Longrightarrow>
   importLoop requiredCols i (map expenseRow es) acc = (fst acc @ es, snd acc)"
  by (induction es arbitrary: i acc) (simp_all add: process_row)

lemma header_line:
  "join '','' requiredCols = csvHeader" "CHR 0x0A \<notin> set csvHeader" "last csvHeader \<noteq> CHR 0x0D"
  "splitOn CHR '','' (trim csvHeader) = requiredCols"
  "\<not> list_ex (\<lambda>i. i = - 1) (map (idx requiredCols) requiredCols)"
  by code_simp+

lemma generated_lines:
  assumes "list_all wellFormed es"
  shows "splitLines (generateCSVString es) = csvHeader # map expenseRow es"
proof -
  have "list_all (\<lambda>l. CHR 0x0A \<notin> set l \<and> (l = [] \<or> last l \<noteq> CHR 0x0D)) (map expenseRow es)"
    using assms row_shape(3,4) by (auto simp: list_all_iff)
  then have "list_all (\<lambda>l. CHR 0x0A \<notin> set l \<and> (l = [] \<or> last l \<noteq> CHR 0x0D))
               (csvHeader # map expenseRow es)"
    by (simp add: header_line)
  then have "splitLines (join [CHR 0x0A] (csvHeader # map expenseRow es)) = csvHeader # map expenseRow es"
    by (rule splitLines_join) simp
  then show ?thesis by (simp add: generateCSVString_def header_line)
qed

lemma roundtrip:
  assumes "list_all wellFormed es"
  shows "importExpenses (generateCSVString es) =
         \<lparr> expenses = es,
           errors = (if es = [] then [''File is empty or missing headers''] else []) \<rparr>"
proof -
  note gl = generated_lines [OF assms]
  show ?thesis
  proof (cases "es = []")
    case True
    show ?thesis
      unfolding importExpenses_def gl Let_def using True by simp
  next
    case False
    then have "\<not> length (csvHeader # map expenseRow es) < 2" by (cases es) auto
    moreover have "drop 1 (csvHeader # map expenseRow es) = map expenseRow es" by simp
    ultimately show ?thesis
      unfolding importExpenses_def gl Let_def
      using False by (simp add: header_line rows_loop [OF assms] del: One_nat_def)
  qed
qed

text \<open>
  Claim C1, as amended. Decoding what \<open>generateCSVString\<close> writes gives the collection
  back, field for field and in order, with no row-level problem, for every collection of
  \<open>wellFormed\<close> records: an id and a category that are not empty, have no outer white
  space and no comma, double quote or line feed; a date of the 4-2-2 form; an amount
  that is not \<open>NaN\<close> and whose printed form parses back to it; a description without
  outer white space, double quote or line feed (commas are allowed); and tags that are
  not empty and have no outer white space, comma, double quote, line feed or semicolon.
  For the empty collection the text is the header alone, and the one problem reported is
  the file-level one.
\<close>

theorem roundtrip_well_formed:
  "list_all wellFormed es \<Longrightarrow>
   expenses (importExpenses (generateCSVString es)) = es \<and>
   errors (importExpenses (generateCSVString es)) =
     (if es = [] then [''File is empty or missing headers''] else [])"
  by (simp add: roundtrip)

lemma sample_wellFormed: "list_all wellFormed roundTripSample"
  by code_simp

theorem roundtrip_well_formed_witness:
  "list_all wellFormed roundTripSample \<and>
   expenses (importExpenses (generateCSVString roundTripSample)) = roundTripSample \<and>
   errors (importExpenses (generateCSVString roundTripSample)) = []"
  using roundtrip_well_formed [OF sample_wellFormed] sample_wellFormed
  by (simp add: roundTripSample_def)

lemma eval_noCategory:
  "importExpenses (generateCSVString [noCategory]) =
     \<lparr> expenses = [noCategory\<lparr> category := ''Uncategorized'' \<rparr>], errors = [] \<rparr>"
  by code_simp

text \<open>
  Claim C1 as stated fails: a record with a unique id, a date of the right form and a
  finite amount, but an empty category, comes back with the category
  \<open>Uncategorized\<close>.
\<close>

theorem roundtrip_counterexample:
  "distinct (map id_e [noCategory]) \<and>
   list_all (\<lambda>e. isDateFormat (date e) \<and> isFinite (amount e)) [noCategory] \<and>
   expenses (importExpenses (generateCSVString [noCategory])) \<noteq> [noCategory]"
proof -
  have "list_all (\<lambda>e. isDateFormat (date e) \<and> isFinite (amount e)) [noCategory]"
    by code_simp
  then show ?thesis
    by (simp add: eval_noCategory) (simp add: noCategory_def)
qed

lemma undouble_double: "undoubleQuotes (doubleQuotes d) = d"
proof (induction d)
  case Nil
  then show ?case by simp
next
  case (Cons c d)
  show ?case
  proof (cases "c = CHR 0x22")
    case True
    with Cons show ?thesis by simp
  next
    case False
    with Cons show ?thesis
      by (cases "doubleQuotes d") auto
  qed
qed

lemma decoded_no_quote:
  "e \<in> set (expenses (importExpenses t)) \<Longrightarrow> CHR 0x22 \<notin> set (description e)"
proof -
  assume "e \<in> set (expenses (importExpenses t))"
  from record_from_line [OF this] obtain raw where
    h: "set requiredCols \<subseteq> set (headerOf t)" and
    len: "length (headerOf t) \<le> length (scanLine (trim raw) [] [] False)" and
    ok: "parseRow (headerOf t) (scanLine (trim raw) [] [] False) = Inr e"
    by blast
  let ?parts = "scanLine (trim raw) [] [] False"
  have "''description'' \<in> set (headerOf t)"
    using h by (auto simp: requiredCols_def)
  from indexOf_present [OF this] len
  have l: "nat (idx (headerOf t) ''description'') < length ?parts"
    by (simp add: idx_def)
  have nq: "\<forall>p \<in> set ?parts. CHR 0x22 \<notin> set p"
    by (rule scanLine_no_quote) simp_all
  from parseRow_fields [OF ok nq l]
  have d: "description e = trim (field (headerOf t) ?parts ''description'')" by blast
  from nq l have q: "CHR 0x22 \<notin> set (field (headerOf t) ?parts ''description'')"
    by (simp add: field_def)
  obtain a b where "field (headerOf t) ?parts ''description'' = a @ description e @ b"
    using trim_parts [of "field (headerOf t) ?parts ''description''"] d by auto
  with q show ?thesis by (metis Un_iff set_append)
qed

lemma eval_padded:
  "importExpenses (generateCSVString [paddedDescription]) =
     \<lparr> expenses = [paddedDescription\<lparr> description := ''a,b'' \<rparr>], errors = [] \<rparr>"
  by code_simp

lemma eval_quotedDescription:
  "importExpenses (generateCSVString [quotedDescription]) =
     \<lparr> expenses = [quotedDescription\<lparr> description := ''ab'' \<rparr>], errors = [] \<rparr> \<and>
   escapeDescription (description quotedDescription) =
     [CHR 0x22] @ ''a'' @ [CHR 0x22, CHR 0x22] @ ''b'' @ [CHR 0x22] \<and>
   CHR 0x22 \<in> set (description quotedDescription)"
  by code_simp

text \<open>
  Claim C2. A description that contains a comma or a double quote is written between
  double quotes with every double quote inside it doubled, and the replacement that the
  decoder applies to a quoted description undoes the doubling. But the scanner has
  dropped every double quote before that step: no description that \<open>importExpenses\<close>
  returns, from any text, contains a double quote, so a description with a double quote
  is never decoded back. A quoted description also loses the white space at its ends,
  which the quotes would have kept from \<open>trim\<close>.
\<close>

theorem escaping_not_undone:
  "(CHR '','' \<in> set d \<or> CHR 0x22 \<in> set d \<longrightarrow>
      escapeDescription d = [CHR 0x22] @ doubleQuotes d @ [CHR 0x22]) \<and>
   undoubleQuotes (doubleQuotes d) = d \<and>
   list_all (\<lambda>e. CHR 0x22 \<notin> set (description e)) (expenses (importExpenses t)) \<and>
   (CHR 0x22 \<in> set d \<longrightarrow> d \<notin> set (map description (expenses (importExpenses t))))"
proof (intro conjI impI)
  assume "CHR '','' \<in> set d \<or> CHR 0x22 \<in> set d"
  then show "escapeDescription d = [CHR 0x22] @ doubleQuotes d @ [CHR 0x22]"
    by (auto simp: escapeDescription_def includesChar_def)
next
  show "undoubleQuotes (doubleQuotes d) = d" by (rule undouble_double)
next
  show "list_all (\<lambda>e. CHR 0x22 \<notin> set (description e)) (expenses (importExpenses t))"
    using decoded_no_quote by (auto simp: list_all_iff)
next
  assume "CHR 0x22 \<in> set d"
  then show "d \<notin> set (map description (expenses (importExpenses t)))"
    using decoded_no_quote by auto
qed

theorem escaping_not_undone_witness:
  "CHR 0x22 \<in> set (description quotedDescription) \<and>
   escapeDescription (description quotedDescription) =
     [CHR 0x22] @ ''a'' @ [CHR 0x22, CHR 0x22] @ ''b'' @ [CHR 0x22] \<and>
   map description (expenses (importExpenses (generateCSVString [quotedDescription]))) = [''ab''] \<and>
   description quotedDescription \<noteq> ''ab'' \<and>
   map description (expenses (importExpenses (generateCSVString [paddedDescription]))) = [''a,b''] \<and>
   description paddedDescription \<noteq> ''a,b''"
proof -
  have q: "CHR 0x22 \<in> set (description quotedDescription)"
    using eval_quotedDescription by blast
  have "map description (expenses (importExpenses (generateCSVString [quotedDescription]))) = [''ab'']"
    using eval_quotedDescription by simp
  moreover have "description quotedDescription \<noteq> ''ab''"
    using escaping_not_undone
      [of "description quotedDescription" "generateCSVString [quotedDescription]"] q calculation
    by auto
  moreover have "map description (expenses (importExpenses (generateCSVString [paddedDescription]))) = [''a,b'']"
    by (simp add: eval_padded)
  moreover have "description paddedDescription \<noteq> ''a,b''"
    by (simp add: paddedDescription_def)
  ultimately show ?thesis using q eval_quotedDescription by blast
qed

end
